theory Spec2Isabelle
  imports Complex_Main "HOL-Library.Sublist" "HOL-Library.Product_Lexorder"
    "HOL-Library.List_Lexorder"
begin

section \<open>Strings\<close>

text \<open>
  A Python \<open>str\<close> is a sequence of Unicode code points; SQLite's \<open>LIKE\<close> also works on
  code points (it decodes the UTF-8 of a TEXT value). A string is therefore a list of code
  points. The model covers strings without surrogates and below SQLite's length limit of
  \<open>10^9\<close> bytes, the strings that the sqlite3 module can bind. The order on
  strings (\<open>List_Lexorder\<close>) is the lexicographic order on code points: Python's order
  on \<open>str\<close>, and the order of SQLite's BINARY collation on UTF-8.
\<close>

type_synonym str = "nat list"

definition ascii :: "string \<Rightarrow> str" where
  "ascii s = map of_char s"

text \<open>The number of bytes of a string in UTF-8, the encoding SQLite stores TEXT in.\<close>

definition utf8_char_length :: "nat \<Rightarrow> nat" where
  "utf8_char_length c = (if c < 128 then 1 else if c < 2048 then 2 else if c < 65536 then 3 else 4)"

definition utf8_length :: "str \<Rightarrow> nat" where
  "utf8_length s = sum_list (map utf8_char_length s)"

text \<open>\<open>str.isspace\<close>: the code points Python's \<open>str.strip()\<close> removes.\<close>

definition is_space :: "nat \<Rightarrow> bool" where
  "is_space c \<longleftrightarrow>
     (9 \<le> c \<and> c \<le> 13) \<or> (28 \<le> c \<and> c \<le> 32) \<or> c = 133 \<or> c = 160 \<or> c = 5760 \<or>
     (8192 \<le> c \<and> c \<le> 8202) \<or> c = 8232 \<or> c = 8233 \<or> c = 8239 \<or> c = 8287 \<or> c = 12288"

definition py_strip :: "str \<Rightarrow> str" where
  "py_strip s = rev (dropWhile is_space (rev (dropWhile is_space s)))"

datatype py_error = OperationalError | IntegrityError | ValueError

section \<open>The close-matches routine of Python's difflib\<close>

text \<open>
  \<open>suggest_keywords\<close> calls \<open>difflib.get_close_matches(query, all_keys, n=3, cutoff=0.6)\<close>.
  That routine builds one \<open>SequenceMatcher\<close> (no junk predicate, \<open>autojunk\<close> on), sets its
  second sequence \<open>b\<close> to the query and its first sequence \<open>a\<close> to each candidate in turn.
  The definitions below follow the library's methods of the same names.

  \<open>b2j\<close> maps an element to the ascending list of its positions in \<open>b\<close>; when \<open>b\<close> has 200
  elements or more, an element that fills more than one percent of it (plus one) is
  "popular" and loses its entry.
\<close>

definition indices_of :: "str \<Rightarrow> nat \<Rightarrow> nat list" where
  "indices_of b elt = filter (\<lambda>j. b ! j = elt) [0..<length b]"

definition b2j :: "str \<Rightarrow> nat \<Rightarrow> nat list" where
  "b2j b elt =
     (let idxs = indices_of b elt
      in if 200 \<le> length b \<and> length b div 100 + 1 < length idxs then [] else idxs)"

text \<open>
  \<open>j2len.get(j - 1, 0)\<close>: for \<open>j = 0\<close> the key is \<open>-1\<close>, which the dictionary never holds.
\<close>

definition j2lenget :: "(nat \<times> nat) list \<Rightarrow> nat \<Rightarrow> nat" where
  "j2lenget j2len j =
     (if j = 0 then 0 else case map_of j2len (j - 1) of None \<Rightarrow> 0 | Some k \<Rightarrow> k)"

text \<open>
  The two nested \<open>for\<close> loops of \<open>find_longest_match\<close>: \<open>scan_js\<close> is the inner loop over the
  positions \<open>j\<close> of \<open>a[i]\<close> in \<open>b\<close> (with its \<open>continue\<close> below \<open>blo\<close> and its \<open>break\<close> at
  \<open>bhi\<close>), \<open>scan_is\<close> the outer loop over \<open>i\<close>. The new block starts at \<open>i - k + 1\<close> and
  \<open>j - k + 1\<close>, written \<open>i + 1 - k\<close> and \<open>j + 1 - k\<close> on naturals; \<open>scan_js_bounds\<close> below
  shows that \<open>k \<le> i + 1 - alo\<close> and \<open>k \<le> j + 1 - blo\<close>, so nothing is cut off.
\<close>

fun scan_js ::
  "nat \<Rightarrow> nat \<Rightarrow> nat \<Rightarrow> (nat \<times> nat) list \<Rightarrow> nat list \<Rightarrow>
   (nat \<times> nat) list \<times> nat \<times> nat \<times> nat \<Rightarrow> (nat \<times> nat) list \<times> nat \<times> nat \<times> nat" where
  "scan_js i blo bhi j2len [] st = st"
| "scan_js i blo bhi j2len (j # js) (newj2len, besti, bestj, bestsize) =
     (if j < blo then scan_js i blo bhi j2len js (newj2len, besti, bestj, bestsize)
      else if bhi \<le> j then (newj2len, besti, bestj, bestsize)
      else
        let k = j2lenget j2len j + 1
        in if bestsize < k
           then scan_js i blo bhi j2len js ((j, k) # newj2len, i + 1 - k, j + 1 - k, k)
           else scan_js i blo bhi j2len js ((j, k) # newj2len, besti, bestj, bestsize))"

fun scan_is ::
  "str \<Rightarrow> str \<Rightarrow> nat \<Rightarrow> nat \<Rightarrow> nat list \<Rightarrow>
   (nat \<times> nat) list \<times> nat \<times> nat \<times> nat \<Rightarrow> nat \<times> nat \<times> nat" where
  "scan_is a b blo bhi [] (j2len, best) = best"
| "scan_is a b blo bhi (i # is) (j2len, best) =
     scan_is a b blo bhi is (scan_js i blo bhi j2len (b2j b (a ! i)) ([], best))"

text \<open>
  The \<open>while\<close> loops that grow the block to the left and to the right. With no junk
  predicate the set \<open>bjunk\<close> is empty, so the two loops over junk elements that follow in
  the library never run. Like the loops above they read \<open>a\<close> and \<open>b\<close> only at positions
  of the window \<open>alo..ahi\<close>, \<open>blo..bhi\<close> they are given (their guards say so).
\<close>

function extend_left :: "str \<Rightarrow> str \<Rightarrow> nat \<Rightarrow> nat \<Rightarrow> nat \<times> nat \<times> nat \<Rightarrow> nat \<times> nat \<times> nat" where
  "extend_left a b alo blo (besti, bestj, bestsize) =
     (if alo < besti \<and> blo < bestj \<and> a ! (besti - 1) = b ! (bestj - 1)
      then extend_left a b alo blo (besti - 1, bestj - 1, bestsize + 1)
      else (besti, bestj, bestsize))"
  by pat_completeness auto
termination
  by (relation "measure (\<lambda>(a, b, alo, blo, besti, bestj, bestsize). besti)") auto

function extend_right :: "str \<Rightarrow> str \<Rightarrow> nat \<Rightarrow> nat \<Rightarrow> nat \<times> nat \<times> nat \<Rightarrow> nat \<times> nat \<times> nat" where
  "extend_right a b ahi bhi (besti, bestj, bestsize) =
     (if besti + bestsize < ahi \<and> bestj + bestsize < bhi \<and>
         a ! (besti + bestsize) = b ! (bestj + bestsize)
      then extend_right a b ahi bhi (besti, bestj, bestsize + 1)
      else (besti, bestj, bestsize))"
  by pat_completeness auto
termination
  by (relation "measure (\<lambda>(a, b, ahi, bhi, besti, bestj, bestsize). ahi - (besti + bestsize))") auto

definition find_longest_match ::
  "str \<Rightarrow> str \<Rightarrow> nat \<Rightarrow> nat \<Rightarrow> nat \<Rightarrow> nat \<Rightarrow> nat \<times> nat \<times> nat" where
  "find_longest_match a b alo ahi blo bhi =
     extend_right a b ahi bhi
       (extend_left a b alo blo (scan_is a b blo bhi [alo..<ahi] ([], alo, blo, 0)))"


subsection \<open>The longest match lies inside its window\<close>

lemma j2lenget_le:
  assumes "\<forall>p\<in>set j2len. snd p \<le> n \<and> snd p \<le> fst p + 1 - blo" and "blo \<le> j"
  shows "j2lenget j2len j \<le> n \<and> j2lenget j2len j \<le> j - blo"
proof (cases "j = 0")
  case True
  then show ?thesis by (simp add: j2lenget_def)
next
  case False
  show ?thesis
  proof (cases "map_of j2len (j - 1)")
    case None
    with False show ?thesis by (simp add: j2lenget_def)
  next
    case (Some k)
    then have "(j - 1, k) \<in> set j2len"
      by (rule map_of_SomeD)
    with assms(1) have "snd (j - 1, k) \<le> n \<and> snd (j - 1, k) \<le> fst (j - 1, k) + 1 - blo"
      by blast
    then have "k \<le> n \<and> k \<le> j - blo"
      using False by simp
    with False Some show ?thesis
      by (simp add: j2lenget_def)
  qed
qed

lemma scan_js_bounds:
  assumes "\<forall>p\<in>set j2len. snd p \<le> i - alo \<and> snd p \<le> fst p + 1 - blo" and "alo \<le> i"
    and "\<forall>p\<in>set nj. snd p \<le> i + 1 - alo \<and> snd p \<le> fst p + 1 - blo"
    and "alo \<le> bi" and "bi + bs \<le> i + 1" and "blo \<le> bj" and "bj + bs \<le> bhi"
    and "scan_js i blo bhi j2len js (nj, bi, bj, bs) = (nj', ri, rj, rs)"
  shows "(\<forall>p\<in>set nj'. snd p \<le> i + 1 - alo \<and> snd p \<le> fst p + 1 - blo) \<and>
     alo \<le> ri \<and> ri + rs \<le> i + 1 \<and> blo \<le> rj \<and> rj + rs \<le> bhi"
  using assms(3-8)
proof (induction js arbitrary: nj bi bj bs)
  case Nil
  then show ?case by simp
next
  case (Cons j js)
  define k where "k = j2lenget j2len j + 1"
  show ?case
  proof (cases "j < blo")
    case True
    with Cons.prems(6) have "scan_js i blo bhi j2len js (nj, bi, bj, bs) = (nj', ri, rj, rs)"
      by simp
    from Cons.IH [OF Cons.prems(1-5) this] show ?thesis .
  next
    case lo: False
    show ?thesis
    proof (cases "bhi \<le> j")
      case True
      with lo Cons.prems(6) have "(nj', ri, rj, rs) = (nj, bi, bj, bs)"
        by simp
      with Cons.prems(1-5) show ?thesis
        by simp
    next
      case hi: False
      from lo have j: "blo \<le> j" by simp
      from j2lenget_le [OF assms(1) j]
      have prev: "j2lenget j2len j \<le> i - alo" "j2lenget j2len j \<le> j - blo"
        by simp_all
      have k: "k \<le> i + 1 - alo" "k \<le> j + 1 - blo"
        unfolding k_def using prev(1) assms(2) prev(2) j by arith+
      have entries: "\<forall>p\<in>set ((j, k) # nj). snd p \<le> i + 1 - alo \<and> snd p \<le> fst p + 1 - blo"
        using k Cons.prems(1) by simp
      show ?thesis
      proof (cases "bs < k")
        case True
        with lo hi Cons.prems(6)
        have run: "scan_js i blo bhi j2len js ((j, k) # nj, i + 1 - k, j + 1 - k, k) = (nj', ri, rj, rs)"
          by (simp add: Let_def k_def)
        have "alo \<le> i + 1 - k" and "i + 1 - k + k \<le> i + 1"
          using k(1) assms(2) by simp_all
        moreover have "blo \<le> j + 1 - k" and "j + 1 - k + k \<le> bhi"
          using k(2) lo hi by simp_all
        ultimately show ?thesis
          using entries run by (intro Cons.IH)
      next
        case False
        with lo hi Cons.prems(6)
        have run: "scan_js i blo bhi j2len js ((j, k) # nj, bi, bj, bs) = (nj', ri, rj, rs)"
          by (simp add: Let_def k_def)
        from entries Cons.prems(2-5) run show ?thesis
          by (intro Cons.IH)
      qed
    qed
  qed
qed

lemma scan_is_bounds:
  assumes "alo \<le> i" and "i \<le> ahi"
    and "\<forall>p\<in>set j2len. snd p \<le> i - alo \<and> snd p \<le> fst p + 1 - blo"
    and "alo \<le> bi" and "bi + bs \<le> i" and "blo \<le> bj" and "bj + bs \<le> bhi"
    and "scan_is a b blo bhi [i..<ahi] (j2len, bi, bj, bs) = (ri, rj, rs)"
  shows "alo \<le> ri \<and> ri + rs \<le> ahi \<and> blo \<le> rj \<and> rj + rs \<le> bhi"
  using assms
proof (induction "ahi - i" arbitrary: i j2len bi bj bs)
  case 0
  then show ?case by simp
next
  case (Suc n)
  then have lt: "i < ahi" by simp
  obtain nj' bi' bj' bs' where
    js: "scan_js i blo bhi j2len (b2j b (a ! i)) ([], bi, bj, bs) = (nj', bi', bj', bs')"
    by (metis prod_cases4)
  from Suc.prems(4-7) have
    inv: "(\<forall>p\<in>set nj'. snd p \<le> i + 1 - alo \<and> snd p \<le> fst p + 1 - blo) \<and>
       alo \<le> bi' \<and> bi' + bs' \<le> i + 1 \<and> blo \<le> bj' \<and> bj' + bs' \<le> bhi"
    by (intro scan_js_bounds [OF Suc.prems(3) Suc.prems(1) _ _ _ _ _ js]) auto
  from Suc.prems(8) lt js
  have run: "scan_is a b blo bhi [Suc i..<ahi] (nj', bi', bj', bs') = (ri, rj, rs)"
    by (simp add: upt_conv_Cons)
  show ?case
    by (rule Suc.hyps(1) [OF _ _ _ _ _ _ _ _ run]) (use Suc.hyps(2) Suc.prems(1) lt inv in auto)
qed

lemma scan_js_grows:
  "scan_js i blo bhi j2len js (nj, bi, bj, bs) = (nj', ri, rj, rs) \<Longrightarrow>
   bs \<le> rs \<and> (rs = bs \<longrightarrow> ri = bi \<and> rj = bj)"
proof (induction js arbitrary: nj bi bj bs)
  case Nil
  then show ?case by simp
next
  case (Cons j js)
  show ?case
  proof (cases "j < blo \<or> bhi \<le> j")
    case True
    with Cons show ?thesis
      by (auto split: if_splits)
  next
    case False
    show ?thesis
    proof (cases "bs < j2lenget j2len j + 1")
      case True
      with False Cons.prems have "scan_js i blo bhi j2len js
          ((j, j2lenget j2len j + 1) # nj, i + 1 - (j2lenget j2len j + 1),
           j + 1 - (j2lenget j2len j + 1), j2lenget j2len j + 1) = (nj', ri, rj, rs)"
        by (simp add: Let_def)
      from Cons.IH [OF this] True show ?thesis
        by simp
    next
      case bs: False
      with False Cons.prems have
        "scan_js i blo bhi j2len js ((j, j2lenget j2len j + 1) # nj, bi, bj, bs) = (nj', ri, rj, rs)"
        by (simp add: Let_def)
      from Cons.IH [OF this] show ?thesis .
    qed
  qed
qed

lemma scan_is_grows:
  "scan_is a b blo bhi is (j2len, bi, bj, bs) = (ri, rj, rs) \<Longrightarrow>
   bs \<le> rs \<and> (rs = bs \<longrightarrow> ri = bi \<and> rj = bj)"
proof (induction "is" arbitrary: j2len bi bj bs)
  case Nil
  then show ?case by simp
next
  case (Cons i "is")
  obtain nj' bi' bj' bs' where
    js: "scan_js i blo bhi j2len (b2j b (a ! i)) ([], bi, bj, bs) = (nj', bi', bj', bs')"
    by (metis prod_cases4)
  with Cons.prems have "scan_is a b blo bhi is (nj', bi', bj', bs') = (ri, rj, rs)"
    by simp
  from Cons.IH [OF this] scan_js_grows [OF js] show ?case
    by auto
qed

lemma scan_js_empty_window: "bhi < blo \<Longrightarrow> scan_js i blo bhi j2len js st = st"
proof (induction js)
  case Nil
  then show ?case by simp
next
  case (Cons j js)
  then show ?case by (cases st) auto
qed

lemma scan_is_empty_window: "bhi < blo \<Longrightarrow> scan_is a b blo bhi is (j2len, best) = best"
  by (induction "is" arbitrary: j2len) (simp_all add: scan_js_empty_window)

lemma extend_left_bounds:
  "extend_left a b alo blo (bi, bj, bs) = (ri, rj, rs) \<Longrightarrow> alo \<le> bi \<Longrightarrow> blo \<le> bj \<Longrightarrow>
   alo \<le> ri \<and> ri + rs = bi + bs \<and> blo \<le> rj \<and> rj + rs = bj + bs"
proof (induction a b alo blo "(bi, bj, bs)" arbitrary: bi bj bs rule: extend_left.induct)
  case (1 a b alo blo besti bestj bestsize)
  show ?case
  proof (cases "alo < besti \<and> blo < bestj \<and> a ! (besti - 1) = b ! (bestj - 1)")
    case True
    with "1.prems" have "extend_left a b alo blo (besti - 1, bestj - 1, bestsize + 1) = (ri, rj, rs)"
      by simp
    from "1.hyps" [OF True this] True "1.prems"(2,3) show ?thesis
      by auto
  next
    case False
    with "1.prems" show ?thesis
      by auto
  qed
qed

lemma extend_right_bounds:
  "extend_right a b ahi bhi (bi, bj, bs) = (ri, rj, rs) \<Longrightarrow>
   bs = 0 \<or> bi + bs \<le> ahi \<and> bj + bs \<le> bhi \<Longrightarrow>
   ri = bi \<and> rj = bj \<and> bs \<le> rs \<and> (rs = 0 \<or> ri + rs \<le> ahi \<and> rj + rs \<le> bhi)"
proof (induction a b ahi bhi "(bi, bj, bs)" arbitrary: bi bj bs rule: extend_right.induct)
  case (1 a b ahi bhi besti bestj bestsize)
  show ?case
  proof (cases "besti + bestsize < ahi \<and> bestj + bestsize < bhi \<and>
         a ! (besti + bestsize) = b ! (bestj + bestsize)")
    case True
    with "1.prems" have "extend_right a b ahi bhi (besti, bestj, bestsize + 1) = (ri, rj, rs)"
      by simp
    from "1.hyps" [OF True this] True show ?thesis
      by auto
  next
    case False
    with "1.prems" show ?thesis
      by auto
  qed
qed

lemma find_longest_match_bounds:
  assumes "find_longest_match a b alo ahi blo bhi = (i, j, k)" and "k \<noteq> 0"
  shows "alo \<le> i \<and> i + k \<le> ahi \<and> blo \<le> j \<and> j + k \<le> bhi"
proof -
  obtain si sj sk where s: "scan_is a b blo bhi [alo..<ahi] ([], alo, blo, 0) = (si, sj, sk)"
    by (metis prod_cases3)
  obtain li lj lk where l: "extend_left a b alo blo (si, sj, sk) = (li, lj, lk)"
    by (metis prod_cases3)
  from assms(1) s l have r: "extend_right a b ahi bhi (li, lj, lk) = (i, j, k)"
    by (simp add: find_longest_match_def)
  have scanned:
    "sk = 0 \<and> si = alo \<and> sj = blo \<or>
     alo \<le> si \<and> blo \<le> sj \<and> si + sk \<le> ahi \<and> sj + sk \<le> bhi"
  proof (cases "sk = 0")
    case True
    with scan_is_grows [OF s] show ?thesis by simp
  next
    case False
    have "alo \<le> ahi \<and> blo \<le> bhi"
    proof (rule ccontr)
      assume "\<not> (alo \<le> ahi \<and> blo \<le> bhi)"
      then have "scan_is a b blo bhi [alo..<ahi] ([], alo, blo, 0) = (alo, blo, 0)"
        by (auto simp: scan_is_empty_window)
      with s False show False by simp
    qed
    with scan_is_bounds [where alo = alo and i = alo and blo = blo, OF _ _ _ _ _ _ _ s]
    show ?thesis by simp
  qed
  have left: "lk = 0 \<or> alo \<le> li \<and> blo \<le> lj \<and> li + lk \<le> ahi \<and> lj + lk \<le> bhi"
  proof (cases "sk = 0 \<and> si = alo \<and> sj = blo")
    case True
    with l show ?thesis by simp
  next
    case False
    with scanned extend_left_bounds [OF l] show ?thesis by simp
  qed
  from extend_right_bounds [OF r] left have
    "li = i \<and> lj = j \<and> (k = 0 \<or> i + k \<le> ahi \<and> j + k \<le> bhi)"
    by auto
  moreover have "alo \<le> li \<and> blo \<le> lj"
  proof (cases "sk = 0 \<and> si = alo \<and> sj = blo")
    case True
    with l show ?thesis by simp
  next
    case False
    with scanned extend_left_bounds [OF l] show ?thesis by simp
  qed
  ultimately show ?thesis
    using assms(2) by simp
qed

subsection \<open>Matching blocks and the ratios\<close>

text \<open>
  The \<open>while queue:\<close> loop of \<open>get_matching_blocks\<close>. \<open>queue.pop()\<close> takes the entry
  appended last, so the head of the list is the top of the stack: the window right of the
  match is handled before the window left of it.
\<close>

function collect_blocks ::
  "str \<Rightarrow> str \<Rightarrow> (nat \<times> nat \<times> nat \<times> nat) list \<Rightarrow> (nat \<times> nat \<times> nat) list \<Rightarrow>
   (nat \<times> nat \<times> nat) list" where
  "collect_blocks a b [] matching_blocks = matching_blocks"
| "collect_blocks a b ((alo, ahi, blo, bhi) # queue) matching_blocks =
     (case find_longest_match a b alo ahi blo bhi of
        (i, j, k) \<Rightarrow>
          if k \<noteq> 0
          then collect_blocks a b
                 ((if i + k < ahi \<and> j + k < bhi then [(i + k, ahi, j + k, bhi)] else []) @
                  (if alo < i \<and> blo < j then [(alo, i, blo, j)] else []) @ queue)
                 (matching_blocks @ [(i, j, k)])
          else collect_blocks a b queue matching_blocks)"
  by pat_completeness auto
termination
proof (relation "measure (\<lambda>(a, b, queue, acc).
         sum_list (map (\<lambda>(alo, ahi, blo, bhi). 2 * (ahi - alo) + 1) queue))", goal_cases)
  case 1
  show ?case by simp
next
  case (2 a b alo ahi blo bhi queue matching_blocks i y j k)
  then have "find_longest_match a b alo ahi blo bhi = (i, j, k)"
    by simp
  from find_longest_match_bounds [OF this \<open>k \<noteq> 0\<close>] \<open>k \<noteq> 0\<close> show ?case
    by auto
next
  case 3
  then show ?case by simp
qed

text \<open>The loop that merges adjacent blocks.\<close>

fun collapse ::
  "(nat \<times> nat \<times> nat) list \<Rightarrow> nat \<times> nat \<times> nat \<Rightarrow> (nat \<times> nat \<times> nat) list \<Rightarrow>
   (nat \<times> nat \<times> nat) list \<times> nat \<times> nat \<times> nat" where
  "collapse [] (i1, j1, k1) non_adjacent = (non_adjacent, i1, j1, k1)"
| "collapse ((i2, j2, k2) # blocks) (i1, j1, k1) non_adjacent =
     (if i1 + k1 = i2 \<and> j1 + k1 = j2
      then collapse blocks (i1, j1, k1 + k2) non_adjacent
      else collapse blocks (i2, j2, k2)
             (if k1 \<noteq> 0 then non_adjacent @ [(i1, j1, k1)] else non_adjacent))"

definition get_matching_blocks :: "str \<Rightarrow> str \<Rightarrow> (nat \<times> nat \<times> nat) list" where
  "get_matching_blocks a b =
     (let la = length a; lb = length b;
          matching_blocks = sort (collect_blocks a b [(0, la, 0, lb)] [])
      in case collapse matching_blocks (0, 0, 0) [] of
           (non_adjacent, i1, j1, k1) \<Rightarrow>
             (if k1 \<noteq> 0 then non_adjacent @ [(i1, j1, k1)] else non_adjacent) @ [(la, lb, 0)])"

text \<open>
  \<open>_calculate_ratio\<close> returns the double \<open>2.0 * matches / length\<close>. The model keeps the exact
  quotient: for strings shorter than \<open>2^26\<close> characters two different quotients round to
  different doubles, in the same order, and \<open>3/5\<close> rounds to the double of the literal
  \<open>0.6\<close>, so every comparison of the routine has the same outcome on the quotients.
\<close>

definition calculate_ratio :: "nat \<Rightarrow> nat \<Rightarrow> rat" where
  "calculate_ratio matches len = (if len \<noteq> 0 then 2 * of_nat matches / of_nat len else 1)"

definition ratio :: "str \<Rightarrow> str \<Rightarrow> rat" where
  "ratio a b =
     calculate_ratio (sum_list (map (\<lambda>(i, j, k). k) (get_matching_blocks a b)))
       (length a + length b)"

text \<open>The loop of \<open>quick_ratio\<close>: \<open>avail\<close> counts how often an element of \<open>b\<close> is still free.\<close>

fun quick_matches :: "str \<Rightarrow> str \<Rightarrow> (nat \<times> int) list \<Rightarrow> nat \<Rightarrow> nat" where
  "quick_matches b [] avail matches = matches"
| "quick_matches b (elt # a) avail matches =
     (let numb = (case map_of avail elt of Some n \<Rightarrow> n | None \<Rightarrow> int (count_list b elt))
      in quick_matches b a ((elt, numb - 1) # avail) (if 0 < numb then matches + 1 else matches))"

definition quick_ratio :: "str \<Rightarrow> str \<Rightarrow> rat" where
  "quick_ratio a b = calculate_ratio (quick_matches b a [] 0) (length a + length b)"

definition real_quick_ratio :: "str \<Rightarrow> str \<Rightarrow> rat" where
  "real_quick_ratio a b = calculate_ratio (min (length a) (length b)) (length a + length b)"

text \<open>
  \<open>heapq.nlargest(n, result)\<close> is \<open>sorted(result, reverse=True)[:n]\<close>. The elements are
  pairs \<open>(score, x)\<close> ordered lexicographically, equal elements are the same pair, and so
  the descending list is the ascending one reversed.
\<close>

definition nlargest :: "nat \<Rightarrow> ('a :: linorder) list \<Rightarrow> 'a list" where
  "nlargest n xs = take n (rev (sort xs))"

definition get_close_matches :: "str \<Rightarrow> str list \<Rightarrow> int \<Rightarrow> rat \<Rightarrow> py_error + str list" where
  "get_close_matches word possibilities n cutoff =
     (if \<not> 0 < n then Inl ValueError
      else if \<not> (0 \<le> cutoff \<and> cutoff \<le> 1) then Inl ValueError
      else
        let result =
              map (\<lambda>x. (ratio x word, x))
                (filter (\<lambda>x. cutoff \<le> real_quick_ratio x word \<and> cutoff \<le> quick_ratio x word \<and>
                              cutoff \<le> ratio x word) possibilities)
        in Inr (map snd (nlargest (nat n) result)))"

section \<open>The storage engine\<close>

text \<open>
  The table \<open>resources\<close> of \<open>init_db\<close>:
  \<^verbatim>\<open>
  CREATE TABLE resources (
      id       INTEGER PRIMARY KEY AUTOINCREMENT,
      keyword  TEXT UNIQUE NOT NULL,
      url      TEXT NOT NULL,
      count    INTEGER DEFAULT 0,
      tag      TEXT DEFAULT '')
  \<close>
\<close>

record row =
  row_id :: nat
  keyword :: str
  url :: str
  count :: int
  tag :: str

text \<open>
  The database file as the program meets it: \<open>Unreachable\<close> when \<open>sqlite3.connect\<close>
  raises, \<open>NoTable\<close> when the file opens and holds no table \<open>resources\<close> (any statement on
  the table then raises \<open>OperationalError\<close>), and \<open>Table s rows\<close> otherwise, with the rows in
  rowid order and \<open>s\<close> the largest rowid handed out so far (the table's entry in
  \<open>sqlite_sequence\<close>, which \<open>AUTOINCREMENT\<close> keeps). The column \<open>count\<close> is a 64-bit
  integer in the engine; it starts at 0 and grows by one for each match, so the model
  takes it as an unbounded integer.
\<close>

datatype db = Unreachable | NoTable | Table nat "row list"

text \<open>
  SQLite's \<open>LIKE\<close> without an \<open>ESCAPE\<close> clause. Its matcher \<open>patternCompare\<close> reads \<open>%\<close> (37)
  as any run of characters and \<open>_\<close> (95) as any one character; every other character
  matches itself, where the letters A-Z and a-z of ASCII are compared without regard to
  case. The matcher works on zero-terminated texts: the pattern and the text both end at
  their first U+0000.
\<close>

definition ascii_lower :: "nat \<Rightarrow> nat" where
  "ascii_lower c = (if 65 \<le> c \<and> c \<le> 90 then c + 32 else c)"

fun pattern_compare :: "str \<Rightarrow> str \<Rightarrow> bool" where
  "pattern_compare [] s = (s = [])"
| "pattern_compare (p # ps) [] = (p = 37 \<and> pattern_compare ps [])"
| "pattern_compare (p # ps) (c # cs) =
     (if p = 37 then pattern_compare ps (c # cs) \<or> pattern_compare (p # ps) cs
      else (p = 95 \<or> ascii_lower p = ascii_lower c) \<and> pattern_compare ps cs)"

definition like :: "str \<Rightarrow> str \<Rightarrow> bool" where
  "like pat s =
     pattern_compare (takeWhile (\<lambda>c. c \<noteq> 0) pat) (takeWhile (\<lambda>c. c \<noteq> 0) s)"

text \<open>\<^verbatim>\<open>DROP TABLE IF EXISTS resources\<close>, which also forgets the table's rowid counter.\<close>

fun sql_drop_table :: "db \<Rightarrow> py_error + db" where
  "sql_drop_table Unreachable = Inl OperationalError"
| "sql_drop_table d = Inr NoTable"

text \<open>\<^verbatim>\<open>CREATE TABLE resources (...)\<close>\<close>

fun sql_create_table :: "db \<Rightarrow> py_error + db" where
  "sql_create_table NoTable = Inr (Table 0 [])"
| "sql_create_table d = Inl OperationalError"

text \<open>
  \<^verbatim>\<open>INSERT INTO resources(keyword, url) VALUES (?, ?)\<close>: the UNIQUE column rejects a
  keyword the table holds; a new row takes the next rowid and the column defaults.
\<close>

definition new_row :: "nat \<Rightarrow> str \<Rightarrow> str \<Rightarrow> row" where
  "new_row i kw u = \<lparr>row_id = i, keyword = kw, url = u, count = 0, tag = []\<rparr>"

fun sql_insert :: "db \<Rightarrow> str \<Rightarrow> str \<Rightarrow> py_error + db" where
  "sql_insert (Table s rows) kw u =
     (if kw \<in> set (map keyword rows) then Inl IntegrityError
      else Inr (Table (s + 1) (rows @ [new_row (s + 1) kw u])))"
| "sql_insert d kw u = Inl OperationalError"

text \<open>
  \<^verbatim>\<open>INSERT OR IGNORE INTO resources(keyword, url) VALUES (?, ?)\<close>: a keyword the table
  holds is skipped without an error; the skipped statement still uses up a rowid.
\<close>

fun sql_insert_or_ignore :: "db \<Rightarrow> str \<Rightarrow> str \<Rightarrow> py_error + db" where
  "sql_insert_or_ignore (Table s rows) kw u =
     (if kw \<in> set (map keyword rows) then Inr (Table (s + 1) rows)
      else Inr (Table (s + 1) (rows @ [new_row (s + 1) kw u])))"
| "sql_insert_or_ignore d kw u = Inl OperationalError"

text \<open>\<open>cursor.executemany\<close> of that statement: one execution for each pair, in order.\<close>

fun executemany_insert_or_ignore :: "db \<Rightarrow> (str \<times> str) list \<Rightarrow> py_error + db" where
  "executemany_insert_or_ignore d [] = Inr d"
| "executemany_insert_or_ignore d ((kw, u) # seed) =
     (case sql_insert_or_ignore d kw u of
        Inl e \<Rightarrow> Inl e
      | Inr d' \<Rightarrow> executemany_insert_or_ignore d' seed)"

text \<open>
  \<^verbatim>\<open>SELECT keyword, url FROM resources WHERE keyword LIKE ?\<close> (a scan in rowid order).
  The engine refuses a pattern of more than 50000 bytes ("LIKE or GLOB pattern too
  complex") as soon as it evaluates \<open>LIKE\<close> on a row, that is, on every table but the
  empty one.
\<close>

fun sql_select_like :: "db \<Rightarrow> str \<Rightarrow> py_error + (str \<times> str) list" where
  "sql_select_like (Table s rows) pat =
     (if rows \<noteq> [] \<and> 50000 < utf8_length pat then Inl OperationalError
      else Inr (map (\<lambda>r. (keyword r, url r)) (filter (\<lambda>r. like pat (keyword r)) rows)))"
| "sql_select_like d pat = Inl OperationalError"

text \<open>\<^verbatim>\<open>UPDATE resources SET count = count + 1 WHERE keyword = ?\<close>\<close>

fun sql_update_count :: "db \<Rightarrow> str \<Rightarrow> py_error + db" where
  "sql_update_count (Table s rows) kw =
     Inr (Table s (map (\<lambda>r. if keyword r = kw then r\<lparr>count := count r + 1\<rparr> else r) rows))"
| "sql_update_count d kw = Inl OperationalError"

text \<open>
  \<^verbatim>\<open>SELECT keyword, count FROM resources ORDER BY count DESC LIMIT 5\<close>. Rows with the
  same count come out in rowid order.
\<close>

fun sql_select_top :: "db \<Rightarrow> py_error + (str \<times> int) list" where
  "sql_select_top (Table s rows) =
     Inr (take 5 (map (\<lambda>r. (keyword r, count r)) (sort_key (\<lambda>r. - count r) rows)))"
| "sql_select_top d = Inl OperationalError"

text \<open>
  \<^verbatim>\<open>SELECT keyword FROM resources\<close>: SQLite answers it from the index of the UNIQUE
  column, in ascending order of the keyword.
\<close>

fun sql_select_keywords :: "db \<Rightarrow> py_error + str list" where
  "sql_select_keywords (Table s rows) = Inr (sort (map keyword rows))"
| "sql_select_keywords d = Inl OperationalError"

text \<open>\<^verbatim>\<open>DELETE FROM resources WHERE keyword = ?\<close>, with \<open>cursor.rowcount\<close>.\<close>

fun sql_delete :: "db \<Rightarrow> str \<Rightarrow> py_error + (db \<times> nat)" where
  "sql_delete (Table s rows) kw =
     Inr (Table s (filter (\<lambda>r. keyword r \<noteq> kw) rows), length (filter (\<lambda>r. keyword r = kw) rows))"
| "sql_delete d kw = Inl OperationalError"

text \<open>\<^verbatim>\<open>SELECT keyword, url, count, tag FROM resources\<close>\<close>

fun sql_select_all :: "db \<Rightarrow> py_error + (str \<times> str \<times> int \<times> str) list" where
  "sql_select_all (Table s rows) = Inr (map (\<lambda>r. (keyword r, url r, count r, tag r)) rows)"
| "sql_select_all d = Inl OperationalError"

text \<open>\<^verbatim>\<open>UPDATE resources SET tag = ? WHERE keyword = ?\<close>, with \<open>cursor.rowcount\<close>.\<close>

fun sql_update_tag :: "db \<Rightarrow> str \<Rightarrow> str \<Rightarrow> py_error + (db \<times> nat)" where
  "sql_update_tag (Table s rows) t kw =
     Inr (Table s (map (\<lambda>r. if keyword r = kw then r\<lparr>tag := t\<rparr> else r) rows),
          length (filter (\<lambda>r. keyword r = kw) rows))"
| "sql_update_tag d t kw = Inl OperationalError"

text \<open>\<^verbatim>\<open>SELECT keyword, url FROM resources WHERE tag = ?\<close>\<close>

fun sql_select_by_tag :: "db \<Rightarrow> str \<Rightarrow> py_error + (str \<times> str) list" where
  "sql_select_by_tag (Table s rows) t =
     Inr (map (\<lambda>r. (keyword r, url r)) (filter (\<lambda>r. tag r = t) rows))"
| "sql_select_by_tag d t = Inl OperationalError"

section \<open>The program\<close>

text \<open>
  What the program shows: one constructor of \<open>msg\<close> for each \<open>print\<close> of the source (the
  text of a caught exception is left out), and the events of the browser and of the
  list box of the graphical form.
\<close>

datatype msg =
    Search_error | Count_error | Top_error | Keys_error
  | Top_none | Top_header | Top_line nat str int
  | Add_ok str | Add_duplicate str | Add_db_error
  | Delete_ok str | Delete_missing str | Delete_error
  | List_error | List_none | List_header | List_line str str int str
  | Tag_ok str str | Tag_missing str | Tag_error
  | By_tag_error | By_tag_none str | By_tag_header str | By_tag_line str str
  | Match_line str str | Suggest_line "str list"

datatype event =
    Print msg
  | Browser_open str
  | Listbox_clear
  | Listbox_match str str
  | Listbox_suggest_header
  | Listbox_suggestion str

text \<open>
  The seed list \<open>initial_data\<close> of the source. Its keywords are Korean words, written here by
  their code points (scholarship, academic calendar, course registration, library,
  shuttle bus, dormitory, career support, tuition, campus map, the Seed system, LMS,
  my page).
\<close>

definition initial_data :: "(str \<times> str) list" where
  "initial_data =
     [([51109, 54617, 44552], ascii ''https://www.cbnu.ac.kr/www/contents.do?key=492''),
      ([54617, 49324, 51068, 51221],
       ascii ''https://www.cbnu.ac.kr/www/selectWebSchdulList.do?key=455&schdulSeNo=1''),
      ([49688, 44053, 49888, 52397], ascii ''https://eisa.cbnu.ac.kr/''),
      ([46020, 49436, 44288], ascii ''https://cbnul.chungbuk.ac.kr/''),
      ([49492, 53952, 48260, 49828], ascii ''https://www.cbnu.ac.kr/www/contents.do?key=648''),
      ([44592, 49689, 49324], ascii ''https://cia.cbnu.ac.kr/''),
      ([52712, 50629, 51648, 50896], ascii ''https://hrd.cbnu.ac.kr/''),
      ([46321, 47197, 44552], ascii ''https://www.cbnu.ac.kr/www/contents.do?key=483''),
      ([52896, 54140, 49828, 47605], ascii ''https://www.cbnu.ac.kr/www/contents.do?key=4''),
      ([50472, 50519, 49884, 49828, 53596], ascii ''https://seet.cbnu.ac.kr/''),
      ([76, 77, 83], ascii ''https://lms.cbnu.ac.kr/''),
      ([47560, 51060, 54168, 51060, 51648], ascii ''https://portal.cbnu.ac.kr/'')]"

text \<open>
  \<open>init_db\<close>, with the global seed list as a parameter. It has no \<open>try\<close>: whatever
  the engine raises leaves the function.
\<close>

definition init_db :: "(str \<times> str) list \<Rightarrow> db \<Rightarrow> py_error + db" where
  "init_db seed d =
     (case sql_drop_table d of
        Inl e \<Rightarrow> Inl e
      | Inr d1 \<Rightarrow>
          (case sql_create_table d1 of
             Inl e \<Rightarrow> Inl e
           | Inr d2 \<Rightarrow> executemany_insert_or_ignore d2 seed))"

text \<open>
  In every function below \<open>connect_db()\<close> stands before the \<open>try\<close>, so a failing
  connection raises out of the function; a failing statement is caught and reported.
  \<open>search_resources\<close> then goes on with the empty list.
\<close>

fun search_resources :: "db \<Rightarrow> str \<Rightarrow> py_error + (event list \<times> (str \<times> str) list)" where
  "search_resources Unreachable query = Inl OperationalError"
| "search_resources d query =
     (case sql_select_like d ([37] @ query @ [37]) of
        Inr rows \<Rightarrow> Inr ([], rows)
      | Inl e \<Rightarrow> Inr ([Print Search_error], []))"

fun update_count :: "db \<Rightarrow> str \<Rightarrow> py_error + (event list \<times> db)" where
  "update_count Unreachable kw = Inl OperationalError"
| "update_count d kw =
     (case sql_update_count d kw of
        Inr d' \<Rightarrow> Inr ([], d')
      | Inl e \<Rightarrow> Inr ([Print Count_error], d))"

text \<open>\<open>top_keywords\<close>; \<open>enumerate(rows, start=1)\<close> numbers the lines.\<close>

fun top_keywords :: "db \<Rightarrow> py_error + event list" where
  "top_keywords Unreachable = Inl OperationalError"
| "top_keywords d =
     (case (case sql_select_top d of
              Inr rows \<Rightarrow> ([], rows)
            | Inl e \<Rightarrow> ([Print Top_error], [])) of
        (out, rows) \<Rightarrow>
          if rows = [] then Inr (out @ [Print Top_none])
          else Inr (out @ Print Top_header #
                 map (\<lambda>(idx, kw, cnt). Print (Top_line idx kw cnt))
                   (zip [1..<Suc (length rows)] rows)))"

fun suggest_keywords :: "db \<Rightarrow> str \<Rightarrow> py_error + (event list \<times> str list)" where
  "suggest_keywords Unreachable query = Inl OperationalError"
| "suggest_keywords d query =
     (case (case sql_select_keywords d of
              Inr all_keys \<Rightarrow> ([], all_keys)
            | Inl e \<Rightarrow> ([Print Keys_error], [])) of
        (out, all_keys) \<Rightarrow>
          (case get_close_matches query all_keys 3 (6 / 10) of
             Inl e \<Rightarrow> Inl e
           | Inr suggestions \<Rightarrow> Inr (out, suggestions)))"

text \<open>
  \<open>add_resource\<close>, \<open>delete_resource\<close>, \<open>tag_resource\<close> and \<open>show_by_tag\<close> read their
  arguments with \<open>input(...).strip()\<close>; the lines read are parameters here.
\<close>

fun add_resource :: "db \<Rightarrow> str \<Rightarrow> str \<Rightarrow> py_error + (event list \<times> db)" where
  "add_resource Unreachable kw_line url_line = Inl OperationalError"
| "add_resource d kw_line url_line =
     (let kw = py_strip kw_line; u = py_strip url_line
      in case sql_insert d kw u of
           Inr d' \<Rightarrow> Inr ([Print (Add_ok kw)], d')
         | Inl IntegrityError \<Rightarrow> Inr ([Print (Add_duplicate kw)], d)
         | Inl e \<Rightarrow> Inr ([Print Add_db_error], d))"

fun delete_resource :: "db \<Rightarrow> str \<Rightarrow> py_error + (event list \<times> db)" where
  "delete_resource Unreachable kw_line = Inl OperationalError"
| "delete_resource d kw_line =
     (let kw = py_strip kw_line
      in case sql_delete d kw of
           Inr (d', rowcount) \<Rightarrow>
             Inr ([Print (if 0 < rowcount then Delete_ok kw else Delete_missing kw)], d')
         | Inl e \<Rightarrow> Inr ([Print Delete_error], d))"

fun list_resources :: "db \<Rightarrow> py_error + event list" where
  "list_resources Unreachable = Inl OperationalError"
| "list_resources d =
     (case (case sql_select_all d of
              Inr rows \<Rightarrow> ([], rows)
            | Inl e \<Rightarrow> ([Print List_error], [])) of
        (out, rows) \<Rightarrow>
          if rows = [] then Inr (out @ [Print List_none])
          else Inr (out @ Print List_header #
                 map (\<lambda>(kw, u, cnt, t). Print (List_line kw u cnt t)) rows))"

fun tag_resource :: "db \<Rightarrow> str \<Rightarrow> str \<Rightarrow> py_error + (event list \<times> db)" where
  "tag_resource Unreachable kw_line tag_line = Inl OperationalError"
| "tag_resource d kw_line tag_line =
     (let kw = py_strip kw_line; t = py_strip tag_line
      in case sql_update_tag d t kw of
           Inr (d', rowcount) \<Rightarrow>
             Inr ([Print (if 0 < rowcount then Tag_ok kw t else Tag_missing kw)], d')
         | Inl e \<Rightarrow> Inr ([Print Tag_error], d))"

fun show_by_tag :: "db \<Rightarrow> str \<Rightarrow> py_error + event list" where
  "show_by_tag Unreachable tag_line = Inl OperationalError"
| "show_by_tag d tag_line =
     (let t = py_strip tag_line
      in case (case sql_select_by_tag d t of
                 Inr rows \<Rightarrow> ([], rows)
               | Inl e \<Rightarrow> ([Print By_tag_error], [])) of
           (out, rows) \<Rightarrow>
             if rows = [] then Inr (out @ [Print (By_tag_none t)])
             else Inr (out @ Print (By_tag_header t) #
                    map (\<lambda>(kw, u). Print (By_tag_line kw u)) rows))"

text \<open>
  The loop over the matches, the same in the command loop and in the graphical form
  but for the way a match is shown: show it, count it, open its locator.
\<close>

fun visit_matches ::
  "(str \<Rightarrow> str \<Rightarrow> event) \<Rightarrow> db \<Rightarrow> (str \<times> str) list \<Rightarrow> py_error + (event list \<times> db)" where
  "visit_matches shown d [] = Inr ([], d)"
| "visit_matches shown d ((kw, u) # matches) =
     (case update_count d kw of
        Inl e \<Rightarrow> Inl e
      | Inr (out, d') \<Rightarrow>
          (case visit_matches shown d' matches of
             Inl e \<Rightarrow> Inl e
           | Inr (out', d'') \<Rightarrow> Inr (shown kw u # out @ Browser_open u # out', d'')))"

text \<open>
  The last branch of the loop of \<open>main\<close>, taken by every line that is not a command
  word, the empty line among them: \<open>cmd\<close> is the line read, stripped and lowercased. The
  history file that \<open>log_search\<close> appends to is not part of the store and is left out.
\<close>

definition main_search :: "db \<Rightarrow> str \<Rightarrow> py_error + (event list \<times> db)" where
  "main_search d cmd =
     (case search_resources d cmd of
        Inl e \<Rightarrow> Inl e
      | Inr (out, matches) \<Rightarrow>
          if matches \<noteq> []
          then (case visit_matches (\<lambda>kw u. Print (Match_line kw u)) d matches of
                  Inl e \<Rightarrow> Inl e
                | Inr (out', d') \<Rightarrow> Inr (out @ out', d'))
          else (case suggest_keywords d cmd of
                  Inl e \<Rightarrow> Inl e
                | Inr (out', suggestions) \<Rightarrow>
                    Inr (out @ out' @
                         (if suggestions \<noteq> [] then [Print (Suggest_line suggestions)] else []), d)))"

text \<open>\<open>gui_search\<close>, the handler of the search button; \<open>entry\<close> is the text of the entry field.\<close>

definition gui_search :: "db \<Rightarrow> str \<Rightarrow> py_error + (event list \<times> db)" where
  "gui_search d entry =
     (let q = py_strip entry
      in if q = [] then Inr ([Listbox_clear], d)
         else
           (case search_resources d q of
              Inl e \<Rightarrow> Inl e
            | Inr (out, matches) \<Rightarrow>
                if matches \<noteq> []
                then (case visit_matches Listbox_match d matches of
                        Inl e \<Rightarrow> Inl e
                      | Inr (out', d') \<Rightarrow> Inr (Listbox_clear # out @ out', d'))
                else (case suggest_keywords d q of
                        Inl e \<Rightarrow> Inl e
                      | Inr (out', suggestions) \<Rightarrow>
                          Inr (Listbox_clear # out @ Listbox_suggest_header # out' @
                               map Listbox_suggestion suggestions, d))))"

section \<open>Notions of the specification\<close>

text \<open>
  "The seed pairs deduplicated by first occurrence of each keyword", in the words of the
  specification: a pair stays when no earlier pair has its keyword.
\<close>

fun dedup_by_first_keyword :: "(str \<times> str) list \<Rightarrow> (str \<times> str) list" where
  "dedup_by_first_keyword [] = []"
| "dedup_by_first_keyword (p # ps) =
     p # dedup_by_first_keyword (filter (\<lambda>p'. fst p' \<noteq> fst p) ps)"

text \<open>
  Lines searched one after another in the command loop, as the ranking example of the
  specification does.
\<close>

fun searches :: "db \<Rightarrow> str list \<Rightarrow> py_error + db" where
  "searches d [] = Inr d"
| "searches d (cmd # cmds) =
     (case main_search d cmd of
        Inl e \<Rightarrow> Inl e
      | Inr (out, d') \<Rightarrow> searches d' cmds)"

section \<open>Lemmas on the engine and on the loops\<close>

subsection \<open>Patterns\<close>

lemma utf8_length_simps:
  "utf8_length [] = 0" "utf8_length (c # s) = utf8_char_length c + utf8_length s"
  "utf8_length (s @ t) = utf8_length s + utf8_length t"
  "utf8_length (replicate n c) = n * utf8_char_length c"
  by (simp_all add: utf8_length_def sum_list_replicate)

lemma pattern_percent: "pattern_compare [37] s"
  by (induction s) auto

lemma pattern_everything: "pattern_compare [37, 37] s"
  by (induction s) auto

lemma like_everything: "like [37, 37] s"
  by (simp add: like_def pattern_everything)

lemma pattern_literal_prefix:
  "37 \<notin> set q \<Longrightarrow> 95 \<notin> set q \<Longrightarrow>
   pattern_compare (q @ [37]) s \<longleftrightarrow> prefix (map ascii_lower q) (map ascii_lower s)"
proof (induction q arbitrary: s)
  case Nil
  then show ?case by (simp add: pattern_percent)
next
  case (Cons p ps)
  then show ?case by (cases s) auto
qed

lemma pattern_leading_percent:
  "pattern_compare (37 # ps) s \<longleftrightarrow> (\<exists>t. suffix t s \<and> pattern_compare ps t)"
proof (induction s)
  case Nil
  then show ?case by (cases ps) auto
next
  case (Cons c cs)
  then show ?case by (auto simp: suffix_Cons)
qed

lemma suffix_map_ex:
  "(\<exists>t. suffix t s \<and> P (map f t)) \<longleftrightarrow> (\<exists>u. suffix u (map f s) \<and> P u)"
proof
  assume "\<exists>t. suffix t s \<and> P (map f t)"
  then obtain t zs where "s = zs @ t" "P (map f t)"
    by (auto simp: suffix_def)
  then have "suffix (map f t) (map f s)" "P (map f t)"
    by (simp_all add: suffix_def)
  then show "\<exists>u. suffix u (map f s) \<and> P u"
    by blast
next
  assume "\<exists>u. suffix u (map f s) \<and> P u"
  then obtain u zs where u: "map f s = zs @ u" "P u"
    by (auto simp: suffix_def)
  then obtain s1 s2 where "s = s1 @ s2" "map f s2 = u"
    by (auto simp: map_eq_append_conv)
  with u show "\<exists>t. suffix t s \<and> P (map f t)"
    by (auto simp: suffix_def)
qed

lemma pattern_contains:
  assumes "37 \<notin> set q" and "95 \<notin> set q"
  shows "pattern_compare (37 # q @ [37]) k \<longleftrightarrow>
     sublist (map ascii_lower q) (map ascii_lower k)"
proof -
  have "pattern_compare (37 # q @ [37]) k \<longleftrightarrow>
      (\<exists>t. suffix t k \<and> pattern_compare (q @ [37]) t)"
    by (rule pattern_leading_percent)
  also have "\<dots> \<longleftrightarrow> (\<exists>t. suffix t k \<and> prefix (map ascii_lower q) (map ascii_lower t))"
    using assms by (simp add: pattern_literal_prefix)
  also have "\<dots> \<longleftrightarrow> (\<exists>u. suffix u (map ascii_lower k) \<and> prefix (map ascii_lower q) u)"
    by (rule suffix_map_ex)
  also have "\<dots> \<longleftrightarrow> sublist (map ascii_lower q) (map ascii_lower k)"
    by (auto simp: sublist_altdef')
  finally show ?thesis .
qed

lemma like_contains:
  assumes "0 \<notin> set q" and "37 \<notin> set q" and "95 \<notin> set q" and "0 \<notin> set k"
  shows "like (37 # q @ [37]) k \<longleftrightarrow> sublist (map ascii_lower q) (map ascii_lower k)"
proof -
  from assms(1) have pat: "takeWhile (\<lambda>c. c \<noteq> 0) (37 # q @ [37]) = 37 # q @ [37]"
    by (auto simp: takeWhile_eq_all_conv intro!: gr0I)
  from assms(4) have key: "takeWhile (\<lambda>c. c \<noteq> 0) k = k"
    by (auto simp: takeWhile_eq_all_conv intro!: gr0I)
  show ?thesis
    unfolding like_def pat key by (rule pattern_contains [OF assms(2,3)])
qed

subsection \<open>Stripped lines\<close>

lemma py_strip_spaces:
  assumes "\<forall>c\<in>set s. is_space c"
  shows "py_strip s = []"
  using assms by (auto simp: py_strip_def dest: set_dropWhileD)

lemma gui_search_blank:
  "\<forall>c\<in>set entry. is_space c \<Longrightarrow> gui_search d entry = Inr ([Listbox_clear], d)"
  by (simp add: gui_search_def py_strip_spaces)

subsection \<open>The loop over the matches\<close>

lemma visit_matches_Table:
  "visit_matches shown (Table s rows) ms =
     Inr (concat (map (\<lambda>(kw, u). [shown kw u, Browser_open u]) ms),
          Table s
            (fold (\<lambda>k. map (\<lambda>r. if keyword r = k then r\<lparr>count := count r + 1\<rparr> else r))
               (map fst ms) rows))"
proof (induction ms arbitrary: rows)
  case Nil
  then show ?case by simp
next
  case (Cons m ms)
  obtain kw u where m: "m = (kw, u)" by (cases m)
  show ?case
    unfolding m by (simp add: Cons)
qed

lemma fold_count_distinct:
  "distinct ks \<Longrightarrow>
   fold (\<lambda>k. map (\<lambda>r. if keyword r = k then r\<lparr>count := count r + 1\<rparr> else r)) ks rows =
   map (\<lambda>r. if keyword r \<in> set ks then r\<lparr>count := count r + 1\<rparr> else r) rows"
proof (induction ks arbitrary: rows)
  case Nil
  then show ?case by simp
next
  case (Cons k ks)
  then show ?case by (auto simp: comp_def)
qed

lemma matched_iff:
  assumes "distinct (map keyword rows)" and "r \<in> set rows"
  shows "(keyword r, url r) \<in> set (map (\<lambda>r. (keyword r, url r)) (filter P rows)) \<longleftrightarrow> P r"
    and "keyword r \<in> set (map keyword (filter P rows)) \<longleftrightarrow> P r"
  using assms by (auto simp: distinct_map dest: inj_onD)

lemma visit_filtered:
  assumes "distinct (map keyword rows)"
  shows "visit_matches shown (Table s rows) (map (\<lambda>r. (keyword r, url r)) (filter P rows)) =
     Inr (concat (map (\<lambda>r. [shown (keyword r) (url r), Browser_open (url r)]) (filter P rows)),
          Table s
            (map (\<lambda>r. if (keyword r, url r) \<in> set (map (\<lambda>r. (keyword r, url r)) (filter P rows))
                      then r\<lparr>count := count r + 1\<rparr> else r) rows))"
proof -
  let ?ms = "map (\<lambda>r. (keyword r, url r)) (filter P rows)"
  have keys: "map fst ?ms = map keyword (filter P rows)"
    by (simp add: comp_def)
  have "distinct (map keyword (filter P rows))"
    using assms by (rule distinct_map_filter)
  then have "fold (\<lambda>k. map (\<lambda>r. if keyword r = k then r\<lparr>count := count r + 1\<rparr> else r))
       (map fst ?ms) rows =
     map (\<lambda>r. if keyword r \<in> set (map keyword (filter P rows))
               then r\<lparr>count := count r + 1\<rparr> else r) rows"
    unfolding keys by (rule fold_count_distinct)
  also have "\<dots> = map (\<lambda>r. if (keyword r, url r) \<in> set ?ms then r\<lparr>count := count r + 1\<rparr> else r) rows"
    using matched_iff [OF assms] by (intro map_cong refl) (simp del: set_map set_filter)
  finally show ?thesis
    by (simp add: visit_matches_Table comp_def)
qed

lemma filter_keyword_unique:
  "distinct (map keyword rows) \<Longrightarrow> r \<in> set rows \<Longrightarrow>
   filter (\<lambda>x. keyword x = keyword r) rows = [r]"
proof (induction rows)
  case Nil
  then show ?case by simp
next
  case (Cons x rows)
  show ?case
  proof (cases "x = r")
    case True
    from Cons.prems(1) True have "keyword r \<notin> keyword ` set rows"
      by simp
    then have "\<forall>x\<in>set rows. keyword x \<noteq> keyword r"
      by (metis imageI)
    then have "filter (\<lambda>x. keyword x = keyword r) rows = []"
      by (simp add: filter_empty_conv)
    with True show ?thesis by simp
  next
    case False
    with Cons show ?thesis by auto
  qed
qed

subsection \<open>Suggestions\<close>

lemma nlargest_props:
  "length (nlargest n xs) \<le> n" "set (nlargest n xs) \<subseteq> set xs"
  "sorted_wrt (\<lambda>p p'. p' \<le> p) (nlargest n xs)"
proof -
  show "length (nlargest n xs) \<le> n"
    by (simp add: nlargest_def)
  show "set (nlargest n xs) \<subseteq> set xs"
    using set_take_subset [of n "rev (sort xs)"] by (simp add: nlargest_def)
  have "sorted_wrt (\<lambda>p p'. p' \<le> p) (rev (sort xs))"
    by (simp add: sorted_wrt_rev)
  then show "sorted_wrt (\<lambda>p p'. p' \<le> p) (nlargest n xs)"
    unfolding nlargest_def by (rule sorted_wrt_take)
qed

lemma get_close_matches_returns:
  "\<exists>res. get_close_matches q universe 3 (6 / 10) = Inr res"
  by (simp add: get_close_matches_def)

lemma suggest_keywords_returns:
  "\<exists>out res. suggest_keywords (Table s rows) q = Inr (out, res)"
  using get_close_matches_returns [of q "sort (map keyword rows)"] by auto

subsection \<open>Seeding\<close>

lemma executemany_Table:
  "\<exists>s' rows'. executemany_insert_or_ignore (Table s rows) seed = Inr (Table s' rows') \<and>
     map (\<lambda>r. (keyword r, url r)) rows' =
       map (\<lambda>r. (keyword r, url r)) rows @
       dedup_by_first_keyword (filter (\<lambda>p. fst p \<notin> set (map keyword rows)) seed) \<and>
     (\<forall>r\<in>set rows'. r \<in> set rows \<or> count r = 0 \<and> tag r = [])"
proof (induction seed arbitrary: s rows)
  case Nil
  then show ?case by simp
next
  case (Cons p seed)
  obtain kw u where p: "p = (kw, u)" by (cases p)
  show ?case
  proof (cases "kw \<in> set (map keyword rows)")
    case True
    with Cons [of "s + 1" rows] p show ?thesis
      by simp
  next
    case False
    let ?rows = "rows @ [new_row (s + 1) kw u]"
    have flt: "filter (\<lambda>p. fst p \<notin> set (map keyword ?rows)) seed =
       filter (\<lambda>p'. fst p' \<noteq> kw) (filter (\<lambda>p. fst p \<notin> set (map keyword rows)) seed)"
      by (auto simp: new_row_def intro: filter_cong)
    from Cons [of "s + 1" ?rows] obtain s' rows' where
      run: "executemany_insert_or_ignore (Table (s + 1) ?rows) seed = Inr (Table s' rows')" and
      kv: "map (\<lambda>r. (keyword r, url r)) rows' =
         map (\<lambda>r. (keyword r, url r)) ?rows @
         dedup_by_first_keyword (filter (\<lambda>p. fst p \<notin> set (map keyword ?rows)) seed)" and
      fresh: "\<forall>r\<in>set rows'. r \<in> set ?rows \<or> count r = 0 \<and> tag r = []"
      by blast
    from False p run have "executemany_insert_or_ignore (Table s rows) (p # seed) = Inr (Table s' rows')"
      by simp
    moreover from False p kv have "map (\<lambda>r. (keyword r, url r)) rows' =
       map (\<lambda>r. (keyword r, url r)) rows @
       dedup_by_first_keyword (filter (\<lambda>p. fst p \<notin> set (map keyword rows)) (p # seed))"
      unfolding flt by (simp add: new_row_def)
    moreover from fresh have "\<forall>r\<in>set rows'. r \<in> set rows \<or> count r = 0 \<and> tag r = []"
      by (auto simp: new_row_def)
    ultimately show ?thesis
      by blast
  qed
qed

lemma init_db_eq:
  "d \<noteq> Unreachable \<Longrightarrow> init_db seed d = executemany_insert_or_ignore (Table 0 []) seed"
  by (cases d) (simp_all add: init_db_def)

subsection \<open>The UNIQUE column\<close>

text \<open>
  The keywords of a table are pairwise different: \<open>init_db\<close> leaves such a table and every
  function that writes keeps it so. The theorems below on tables with pairwise
  different keywords are therefore theorems on every table the program reaches.
\<close>

lemma executemany_distinct:
  "distinct (map keyword rows) \<Longrightarrow>
   executemany_insert_or_ignore (Table s rows) seed = Inr (Table s' rows') \<Longrightarrow>
   distinct (map keyword rows')"
proof (induction seed arbitrary: s rows)
  case Nil
  then show ?case by simp
next
  case (Cons p seed)
  obtain kw u where p: "p = (kw, u)" by (cases p)
  show ?case
  proof (cases "kw \<in> set (map keyword rows)")
    case True
    with Cons.prems p have "executemany_insert_or_ignore (Table (s + 1) rows) seed = Inr (Table s' rows')"
      by simp
    from Cons.IH [OF Cons.prems(1) this] show ?thesis .
  next
    case False
    with Cons.prems p have
      "executemany_insert_or_ignore (Table (s + 1) (rows @ [new_row (s + 1) kw u])) seed =
         Inr (Table s' rows')"
      by simp
    moreover from False Cons.prems(1) have "distinct (map keyword (rows @ [new_row (s + 1) kw u]))"
      by (simp add: new_row_def)
    ultimately show ?thesis
      by (rule Cons.IH [rotated])
  qed
qed

lemma init_db_distinct:
  "init_db seed d = Inr (Table s rows) \<Longrightarrow> distinct (map keyword rows)"
  by (cases d) (auto simp: init_db_def dest: executemany_distinct [rotated])

lemma fold_count_keywords:
  "map keyword
     (fold (\<lambda>k. map (\<lambda>r. if keyword r = k then r\<lparr>count := count r + 1\<rparr> else r)) ks rows) =
   map keyword rows"
proof (induction ks arbitrary: rows)
  case Nil
  then show ?case by simp
next
  case (Cons k ks)
  have "map keyword (map (\<lambda>r. if keyword r = k then r\<lparr>count := count r + 1\<rparr> else r) rows) =
      map keyword rows"
    by (induction rows) auto
  with Cons [of "map (\<lambda>r. if keyword r = k then r\<lparr>count := count r + 1\<rparr> else r) rows"]
  show ?case by simp
qed

lemma writes_keep_distinct:
  assumes "distinct (map keyword rows)"
  shows "add_resource (Table s rows) kw_line url_line = Inr (out, Table s' rows') \<Longrightarrow>
           distinct (map keyword rows')"
    and "delete_resource (Table s rows) kw_line = Inr (out, Table s' rows') \<Longrightarrow>
           distinct (map keyword rows')"
    and "tag_resource (Table s rows) kw_line tag_line = Inr (out, Table s' rows') \<Longrightarrow>
           distinct (map keyword rows')"
    and "update_count (Table s rows) kw = Inr (out, Table s' rows') \<Longrightarrow>
           distinct (map keyword rows')"
    and "main_search (Table s rows) cmd = Inr (out, Table s' rows') \<Longrightarrow>
           distinct (map keyword rows')"
    and "gui_search (Table s rows) entry = Inr (out, Table s' rows') \<Longrightarrow>
           distinct (map keyword rows')"
proof -
  have upd: "map keyword (map (\<lambda>r. if keyword r = k then f r else r) rows) = map keyword rows"
    if "\<And>r. keyword (f r) = keyword r" for k and f :: "row \<Rightarrow> row"
    using that by (induction rows) auto
  show "add_resource (Table s rows) kw_line url_line = Inr (out, Table s' rows') \<Longrightarrow>
           distinct (map keyword rows')"
    using assms by (auto simp: Let_def new_row_def split: if_splits)
  show "delete_resource (Table s rows) kw_line = Inr (out, Table s' rows') \<Longrightarrow>
           distinct (map keyword rows')"
    using assms by (auto simp: Let_def distinct_map_filter)
  show "tag_resource (Table s rows) kw_line tag_line = Inr (out, Table s' rows') \<Longrightarrow>
           distinct (map keyword rows')"
    using assms upd [of "\<lambda>r. r\<lparr>tag := py_strip tag_line\<rparr>" "py_strip kw_line"]
    by (auto simp: Let_def)
  show "update_count (Table s rows) kw = Inr (out, Table s' rows') \<Longrightarrow>
           distinct (map keyword rows')"
    using assms upd [of "\<lambda>r. r\<lparr>count := count r + 1\<rparr>" kw] by auto
  show "main_search (Table s rows) cmd = Inr (out, Table s' rows') \<Longrightarrow>
           distinct (map keyword rows')"
    using assms
    by (auto simp: main_search_def visit_matches_Table fold_count_keywords
             simp del: suggest_keywords.simps split: if_splits sum.splits)
  show "gui_search (Table s rows) entry = Inr (out, Table s' rows') \<Longrightarrow>
           distinct (map keyword rows')"
    using assms
    by (auto simp: gui_search_def Let_def visit_matches_Table fold_count_keywords
             simp del: suggest_keywords.simps split: if_splits sum.splits)
qed

section \<open>The empty query\<close>

text \<open>
  C1. The handler of the graphical form returns before it searches when the stripped
  entry is empty (\<open>gui_search_blank\<close> above). The command loop has no such guard: on the
  store seeded by \<open>init_db\<close>, the empty line (and a line of blanks, which \<open>strip()\<close> turns
  into it) reaches the search branch with \<open>cmd = ""\<close>, the pattern \<open>%%\<close> matches all
  twelve rows, every locator is opened and every counter goes from 0 to 1.
\<close>

theorem empty_query_matches_every_row:
  "\<exists>s rows rows'.
     init_db initial_data NoTable = Inr (Table s rows) \<and>
     length rows = 12 \<and> map count rows = replicate 12 0 \<and>
     search_resources (Table s rows) [] = Inr ([], map (\<lambda>r. (keyword r, url r)) rows) \<and>
     main_search (Table s rows) [] =
       Inr (concat (map (\<lambda>r. [Print (Match_line (keyword r) (url r)), Browser_open (url r)]) rows),
            Table s rows') \<and>
     map count rows' = replicate 12 1 \<and>
     gui_search (Table s rows) [] = Inr ([Listbox_clear], Table s rows) \<and>
     gui_search (Table s rows) [32, 32, 32] = Inr ([Listbox_clear], Table s rows)"
proof -
  have dedup: "dedup_by_first_keyword initial_data = initial_data"
    by (simp add: initial_data_def)
  from executemany_Table [of 0 "[]" initial_data] obtain s rows where
    run: "executemany_insert_or_ignore (Table 0 []) initial_data = Inr (Table s rows)" and
    kv0: "map (\<lambda>r. (keyword r, url r)) rows = dedup_by_first_keyword initial_data" and
    fresh: "\<forall>r\<in>set rows. count r = 0 \<and> tag r = []"
    by auto
  note kv = kv0 [unfolded dedup]
  have init: "init_db initial_data NoTable = Inr (Table s rows)"
    using run by (simp add: init_db_eq)
  have "length (map (\<lambda>r. (keyword r, url r)) rows) = 12"
    unfolding kv by (simp add: initial_data_def)
  then have len: "length rows = 12"
    by simp
  from fresh have "map count rows = replicate (length rows) 0"
    by (induction rows) auto
  with len have zero: "map count rows = replicate 12 0"
    by simp
  have "map keyword rows = map fst (map (\<lambda>r. (keyword r, url r)) rows)"
    by (simp add: comp_def)
  then have dist: "distinct (map keyword rows)"
    unfolding kv by (simp add: initial_data_def)
  let ?rows' = "map (\<lambda>r. r\<lparr>count := count r + 1\<rparr>) rows"
  have search: "search_resources (Table s rows) [] = Inr ([], map (\<lambda>r. (keyword r, url r)) rows)"
    by (simp add: like_everything utf8_length_simps utf8_char_length_def)
  have "rows \<noteq> []"
    using len by auto
  moreover have "map (\<lambda>r. if (keyword r, url r) \<in> set (map (\<lambda>r. (keyword r, url r)) rows)
                     then r\<lparr>count := count r + 1\<rparr> else r) rows = ?rows'"
    by (rule map_cong) (auto intro: rev_image_eqI)
  moreover note visit_filtered [OF dist, of "\<lambda>kw u. Print (Match_line kw u)" s "\<lambda>r. True"]
  ultimately have main: "main_search (Table s rows) [] =
       Inr (concat (map (\<lambda>r. [Print (Match_line (keyword r) (url r)), Browser_open (url r)]) rows),
            Table s ?rows')"
    unfolding main_search_def search by (simp del: set_map)
  from fresh have "map count ?rows' = replicate (length rows) 1"
    by (induction rows) auto
  with len have one: "map count ?rows' = replicate 12 1"
    by simp
  have gui: "gui_search (Table s rows) [] = Inr ([Listbox_clear], Table s rows)"
       "gui_search (Table s rows) [32, 32, 32] = Inr ([Listbox_clear], Table s rows)"
    by (simp_all add: gui_search_blank is_space_def)
  from init len zero search main one gui show ?thesis
    by blast
qed

section \<open>Substring search\<close>

text \<open>
  C2, as amended. For a query without \<open>%\<close>, \<open>_\<close> and U+0000 that is at most 49998 bytes
  long in UTF-8, on a store whose keywords hold no U+0000, \<open>search_resources\<close> returns, in
  table order, the pair (keyword, locator) of exactly the rows whose keyword contains
  the query as a substring once the ASCII letters of both are lowercased, and it
  returns all of them.
\<close>

theorem search_resources_substring:
  assumes "0 \<notin> set q" and "37 \<notin> set q" and "95 \<notin> set q" and "utf8_length q \<le> 49998"
    and "\<forall>r\<in>set rows. 0 \<notin> set (keyword r)"
  shows "search_resources (Table s rows) q =
     Inr ([], map (\<lambda>r. (keyword r, url r))
                (filter (\<lambda>r. sublist (map ascii_lower q) (map ascii_lower (keyword r))) rows))"
proof -
  have "filter (\<lambda>r. like (37 # q @ [37]) (keyword r)) rows =
      filter (\<lambda>r. sublist (map ascii_lower q) (map ascii_lower (keyword r))) rows"
    using assms(5) by (intro filter_cong refl like_contains [OF assms(1-3)]) simp
  moreover have "\<not> 50000 < utf8_length (37 # q @ [37])"
    using assms(4) by (simp add: utf8_length_simps utf8_char_length_def)
  ultimately show ?thesis
    by simp
qed

theorem search_resources_substring_witness:
  "0 \<notin> set [108, 109, 115 :: nat] \<and> 37 \<notin> set [108, 109, 115 :: nat] \<and>
   95 \<notin> set [108, 109, 115 :: nat] \<and> utf8_length [108, 109, 115] \<le> 49998 \<and>
   search_resources
     (Table 2 [\<lparr>row_id = 1, keyword = [46020, 49436, 44288], url = [97], count = 0, tag = []\<rparr>,
               \<lparr>row_id = 2, keyword = [76, 77, 83], url = [98], count = 0, tag = []\<rparr>])
     [108, 109, 115] = Inr ([], [([76, 77, 83], [98])])"
proof -
  let ?rows = "[\<lparr>row_id = 1, keyword = [46020, 49436, 44288], url = [97], count = 0, tag = []\<rparr>,
                \<lparr>row_id = 2, keyword = [76, 77, 83], url = [98], count = 0, tag = []\<rparr>]"
  have q: "0 \<notin> set [108, 109, 115 :: nat]" "37 \<notin> set [108, 109, 115 :: nat]"
    "95 \<notin> set [108, 109, 115 :: nat]" "utf8_length [108, 109, 115] \<le> 49998"
    by (simp_all add: utf8_length_simps utf8_char_length_def)
  have rows: "\<forall>r\<in>set ?rows. 0 \<notin> set (keyword r)"
    by simp
  from search_resources_substring [OF q rows, of 2] q show ?thesis
    by (simp add: ascii_lower_def sublist_Cons_right del: search_resources.simps)
qed

text \<open>
  The claim as stated asks for a case-sensitive substring test on every query. Five
  searches say otherwise. The query \<open>lms\<close> is no case-sensitive substring of the keyword
  \<open>LMS\<close>, and the search returns that row. The queries \<open>_\<close> and U+0000 are no substring of
  \<open>LMS\<close> in either reading, and the search returns that row. A query of 49999 letters
  \<open>a\<close> is a substring of the keyword of the same letters, and the search returns
  nothing. The query \<open>b\<close> is a substring of the keyword \<open>a\<close>, U+0000, \<open>b\<close>, and the search
  returns nothing.
\<close>

theorem search_resources_case_counterexample:
  "search_resources (Table 1 [\<lparr>row_id = 1, keyword = [76, 77, 83], url = [118], count = 0, tag = []\<rparr>])
     [108, 109, 115] = Inr ([], [([76, 77, 83], [118])]) \<and>
   \<not> sublist [108, 109, 115] [76, 77, 83 :: nat] \<and>
   search_resources (Table 1 [\<lparr>row_id = 1, keyword = [76, 77, 83], url = [118], count = 0, tag = []\<rparr>])
     [95] = Inr ([], [([76, 77, 83], [118])]) \<and>
   \<not> sublist (map ascii_lower [95]) (map ascii_lower [76, 77, 83]) \<and>
   search_resources (Table 1 [\<lparr>row_id = 1, keyword = [76, 77, 83], url = [118], count = 0, tag = []\<rparr>])
     [0] = Inr ([], [([76, 77, 83], [118])]) \<and>
   \<not> sublist (map ascii_lower [0]) (map ascii_lower [76, 77, 83]) \<and>
   search_resources
     (Table 1 [\<lparr>row_id = 1, keyword = replicate 49999 97, url = [118], count = 0, tag = []\<rparr>])
     (replicate 49999 97) = Inr ([Print Search_error], []) \<and>
   sublist (replicate 49999 97) (replicate 49999 (97 :: nat)) \<and>
   search_resources (Table 1 [\<lparr>row_id = 1, keyword = [97, 0, 98], url = [118], count = 0, tag = []\<rparr>])
     [98] = Inr ([], []) \<and>
   sublist [98] [97, 0, 98 :: nat]"
  by (simp add: like_def ascii_lower_def sublist_Cons_right utf8_length_simps utf8_char_length_def)

section \<open>Counting the matches of a search\<close>

text \<open>
  C3. On a table whose keywords are pairwise different (the UNIQUE column), one search
  through the command loop leaves a table that differs from the one before in the
  counters only: the row of every pair the search matched has its \<open>count\<close> raised by
  exactly one, also when the query matches several rows, and every other row is the
  same as before.
\<close>

theorem search_counts_each_match_once:
  assumes "distinct (map keyword rows)"
  shows "\<exists>shown matches out rows'.
     search_resources (Table s rows) q = Inr (shown, matches) \<and>
     main_search (Table s rows) q = Inr (out, Table s rows') \<and>
     rows' = map (\<lambda>r. if (keyword r, url r) \<in> set matches
                       then r\<lparr>count := count r + 1\<rparr> else r) rows"
proof (cases "rows \<noteq> [] \<and> 50000 < utf8_length ([37] @ q @ [37])")
  case True
  then have search: "search_resources (Table s rows) q = Inr ([Print Search_error], [])"
    by simp
  from suggest_keywords_returns [of s rows q] obtain out res where
    "suggest_keywords (Table s rows) q = Inr (out, res)"
    by blast
  then have "\<exists>out. main_search (Table s rows) q = Inr (out, Table s rows)"
    unfolding main_search_def search by (simp del: suggest_keywords.simps)
  moreover have "rows = map (\<lambda>r. if (keyword r, url r) \<in> set []
                       then r\<lparr>count := count r + 1\<rparr> else r) rows"
    by simp
  ultimately show ?thesis
    using search by blast
next
  case short: False
  let ?P = "\<lambda>r. like ([37] @ q @ [37]) (keyword r)"
  let ?ms = "map (\<lambda>r. (keyword r, url r)) (filter ?P rows)"
  let ?rows' = "map (\<lambda>r. if (keyword r, url r) \<in> set ?ms then r\<lparr>count := count r + 1\<rparr> else r) rows"
  from short have search: "search_resources (Table s rows) q = Inr ([], ?ms)"
    by auto
  have "\<exists>out. main_search (Table s rows) q = Inr (out, Table s ?rows')"
  proof (cases "?ms = []")
    case True
    then have same: "?rows' = rows"
      by (simp add: map_idI)
    from suggest_keywords_returns [of s rows q] obtain out res where
      "suggest_keywords (Table s rows) q = Inr (out, res)"
      by blast
    with True same show ?thesis
      unfolding main_search_def search by (simp del: suggest_keywords.simps)
  next
    case False
    have "visit_matches (\<lambda>kw u. Print (Match_line kw u)) (Table s rows) ?ms =
        Inr (concat (map (\<lambda>r. [Print (Match_line (keyword r) (url r)), Browser_open (url r)])
               (filter ?P rows)), Table s ?rows')"
      by (rule visit_filtered [OF assms])
    with False show ?thesis
      unfolding main_search_def search by simp
  qed
  with search show ?thesis
    by blast
qed

theorem search_counts_each_match_once_witness:
  "distinct (map keyword
     [\<lparr>row_id = 1, keyword = [46020, 49436, 44288], url = [97], count = 0, tag = []\<rparr>,
      \<lparr>row_id = 2, keyword = [76, 77, 83], url = [98], count = 2, tag = []\<rparr>,
      \<lparr>row_id = 3, keyword = [108, 109, 115, 50], url = [99], count = 5, tag = []\<rparr>]) \<and>
   (\<exists>out. main_search
      (Table 3
        [\<lparr>row_id = 1, keyword = [46020, 49436, 44288], url = [97], count = 0, tag = []\<rparr>,
         \<lparr>row_id = 2, keyword = [76, 77, 83], url = [98], count = 2, tag = []\<rparr>,
         \<lparr>row_id = 3, keyword = [108, 109, 115, 50], url = [99], count = 5, tag = []\<rparr>])
      [108, 109, 115] =
    Inr (out, Table 3
        [\<lparr>row_id = 1, keyword = [46020, 49436, 44288], url = [97], count = 0, tag = []\<rparr>,
         \<lparr>row_id = 2, keyword = [76, 77, 83], url = [98], count = 3, tag = []\<rparr>,
         \<lparr>row_id = 3, keyword = [108, 109, 115, 50], url = [99], count = 6, tag = []\<rparr>]))"
  using search_counts_each_match_once [of
     "[\<lparr>row_id = 1, keyword = [46020, 49436, 44288], url = [97], count = 0, tag = []\<rparr>,
       \<lparr>row_id = 2, keyword = [76, 77, 83], url = [98], count = 2, tag = []\<rparr>,
       \<lparr>row_id = 3, keyword = [108, 109, 115, 50], url = [99], count = 5, tag = []\<rparr>]"
     3 "[108, 109, 115]"]
  by (simp add: like_def ascii_lower_def utf8_length_simps utf8_char_length_def)

section \<open>Adding a keyword\<close>

text \<open>
  C4. \<open>add_resource\<close> on a keyword the table holds reports the duplicate and leaves the
  whole store as it was (locator, count and tag of the existing row with it); on a new
  keyword it appends one row with that keyword and locator, \<open>count = 0\<close> and the empty
  tag.
\<close>

theorem add_resource_duplicate_or_new:
  "(py_strip kw_line \<in> set (map keyword rows) \<longrightarrow>
      add_resource (Table s rows) kw_line url_line =
        Inr ([Print (Add_duplicate (py_strip kw_line))], Table s rows)) \<and>
   (py_strip kw_line \<notin> set (map keyword rows) \<longrightarrow>
      (\<exists>r. add_resource (Table s rows) kw_line url_line =
              Inr ([Print (Add_ok (py_strip kw_line))], Table (s + 1) (rows @ [r])) \<and>
           keyword r = py_strip kw_line \<and> url r = py_strip url_line \<and>
           count r = 0 \<and> tag r = []))"
  by (simp add: new_row_def Let_def)

theorem add_resource_duplicate_or_new_witness:
  "[76, 77, 83] \<in> set (map keyword
      [\<lparr>row_id = 1, keyword = [76, 77, 83], url = [98], count = 2, tag = [99]\<rparr>]) \<and>
   add_resource (Table 1 [\<lparr>row_id = 1, keyword = [76, 77, 83], url = [98], count = 2, tag = [99]\<rparr>])
      [32, 76, 77, 83, 32] [120] =
     Inr ([Print (Add_duplicate [76, 77, 83])],
          Table 1 [\<lparr>row_id = 1, keyword = [76, 77, 83], url = [98], count = 2, tag = [99]\<rparr>]) \<and>
   [108] \<notin> set (map keyword
      [\<lparr>row_id = 1, keyword = [76, 77, 83], url = [98], count = 2, tag = [99]\<rparr>]) \<and>
   (\<exists>r. add_resource (Table 1 [\<lparr>row_id = 1, keyword = [76, 77, 83], url = [98], count = 2, tag = [99]\<rparr>])
          [108, 32] [120] =
        Inr ([Print (Add_ok [108])],
             Table 2 [\<lparr>row_id = 1, keyword = [76, 77, 83], url = [98], count = 2, tag = [99]\<rparr>, r]) \<and>
      keyword r = [108] \<and> url r = [120] \<and> count r = 0 \<and> tag r = [])"
proof -
  let ?rows = "[\<lparr>row_id = 1, keyword = [76, 77, 83], url = [98], count = 2, tag = [99]\<rparr>]"
  have strip: "py_strip [32, 76, 77, 83, 32] = [76, 77, 83]" "py_strip [108, 32] = [108]"
    "py_strip [120] = [120]"
    by (simp_all add: py_strip_def is_space_def)
  from add_resource_duplicate_or_new [of "[32, 76, 77, 83, 32]" ?rows 1 "[120]"]
    add_resource_duplicate_or_new [of "[108, 32]" ?rows 1 "[120]"]
  show ?thesis
    unfolding strip by (simp add: numeral_2_eq_2 del: add_resource.simps)
qed

section \<open>Reseeding\<close>

text \<open>
  C5. On a database that can be opened, \<open>init_db\<close> leaves a table whose pairs (keyword,
  locator) are, in order, the seed pairs deduplicated by first occurrence of each
  keyword, every row with \<open>count = 0\<close> and the empty tag; \<open>list_resources\<close> lists exactly
  these rows; and running \<open>init_db\<close> again with the same seed gives the same store.
\<close>

theorem init_db_reseed:
  assumes "d \<noteq> Unreachable"
  shows "\<exists>s rows. init_db seed d = Inr (Table s rows) \<and>
     map (\<lambda>r. (keyword r, url r)) rows = dedup_by_first_keyword seed \<and>
     (\<forall>r\<in>set rows. count r = 0 \<and> tag r = []) \<and>
     list_resources (Table s rows) =
       Inr (if seed = [] then [Print List_none]
            else Print List_header #
                 map (\<lambda>(kw, u). Print (List_line kw u 0 [])) (dedup_by_first_keyword seed)) \<and>
     init_db seed (Table s rows) = Inr (Table s rows)"
proof -
  from executemany_Table [of 0 "[]" seed] obtain s rows where
    run: "executemany_insert_or_ignore (Table 0 []) seed = Inr (Table s rows)" and
    kv: "map (\<lambda>r. (keyword r, url r)) rows = dedup_by_first_keyword seed" and
    fresh: "\<forall>r\<in>set rows. count r = 0 \<and> tag r = []"
    by auto
  from fresh have all: "map (\<lambda>r. (keyword r, url r, count r, tag r)) rows =
      map (\<lambda>(kw, u). (kw, u, 0, [])) (dedup_by_first_keyword seed)"
    unfolding kv [symmetric] by (induction rows) auto
  have empty: "dedup_by_first_keyword seed = [] \<longleftrightarrow> seed = []"
    by (cases seed) simp_all
  have "list_resources (Table s rows) =
       Inr (if seed = [] then [Print List_none]
            else Print List_header #
                 map (\<lambda>(kw, u). Print (List_line kw u 0 [])) (dedup_by_first_keyword seed))"
    using empty by (simp add: all comp_def case_prod_unfold)
  moreover have "init_db seed (Table s rows) = Inr (Table s rows)"
    using run by (simp add: init_db_eq)
  moreover have "init_db seed d = Inr (Table s rows)"
    using run assms by (simp add: init_db_eq)
  ultimately show ?thesis
    using kv fresh by blast
qed

theorem init_db_reseed_witness:
  "NoTable \<noteq> Unreachable \<and>
   (\<exists>s rows. init_db [([76, 77, 83], [97]), ([108], [98]), ([76, 77, 83], [99])] NoTable =
        Inr (Table s rows) \<and>
      map (\<lambda>r. (keyword r, url r)) rows = [([76, 77, 83], [97]), ([108], [98])] \<and>
      list_resources (Table s rows) =
        Inr [Print List_header, Print (List_line [76, 77, 83] [97] 0 []),
             Print (List_line [108] [98] 0 [])] \<and>
      init_db [([76, 77, 83], [97]), ([108], [98]), ([76, 77, 83], [99])] (Table s rows) =
        Inr (Table s rows))"
proof -
  let ?seed = "[([76, 77, 83], [97]), ([108], [98]), ([76, 77, 83], [99])] :: (str \<times> str) list"
  have d: "dedup_by_first_keyword ?seed = [([76, 77, 83], [97]), ([108], [98])]"
    by simp
  from init_db_reseed [of NoTable ?seed] obtain s rows where
    "init_db ?seed NoTable = Inr (Table s rows)"
    "map (\<lambda>r. (keyword r, url r)) rows = dedup_by_first_keyword ?seed"
    "list_resources (Table s rows) =
       Inr (if ?seed = [] then [Print List_none]
            else Print List_header #
                 map (\<lambda>(kw, u). Print (List_line kw u 0 [])) (dedup_by_first_keyword ?seed))"
    "init_db ?seed (Table s rows) = Inr (Table s rows)"
    by blast
  then show ?thesis
    unfolding d by (intro conjI exI [of _ s] exI [of _ rows]) simp_all
qed

section \<open>Suggestions\<close>

text \<open>
  C6, as amended. \<open>get_close_matches\<close> with \<open>n = 3\<close> and \<open>cutoff = 0.6\<close>, as
  \<open>suggest_keywords\<close> calls it on the keywords of the table, always returns; it returns at
  most three candidates, each one a member of the universe with a ratio of at least
  \<open>0.6\<close> to the query; they come in descending order of the ratio, and candidates with
  the same ratio in descending order of the strings themselves; and it returns the
  empty list when no candidate reaches the threshold.
\<close>

theorem close_matches_threshold_and_order:
  "\<exists>res. get_close_matches q universe 3 (6 / 10) = Inr res \<and>
     length res \<le> 3 \<and>
     (\<forall>x\<in>set res. x \<in> set universe \<and> 6 / 10 \<le> ratio x q) \<and>
     sorted_wrt (\<lambda>x y. ratio y q < ratio x q \<or> ratio y q = ratio x q \<and> y \<le> x) res \<and>
     ((\<forall>x\<in>set universe. ratio x q < 6 / 10) \<longrightarrow> res = []) \<and>
     suggest_keywords (Table s rows) q =
       map_sum id (Pair []) (get_close_matches q (sort (map keyword rows)) 3 (6 / 10))"
proof -
  let ?P = "\<lambda>x. 6 / 10 \<le> real_quick_ratio x q \<and> 6 / 10 \<le> quick_ratio x q \<and> 6 / 10 \<le> ratio x q"
  let ?result = "map (\<lambda>x. (ratio x q, x)) (filter ?P universe)"
  let ?top = "nlargest 3 ?result"
  let ?R = "\<lambda>x y. ratio y q < ratio x q \<or> ratio y q = ratio x q \<and> y \<le> x"
  have run: "get_close_matches q universe 3 (6 / 10) = Inr (map snd ?top)"
    by (simp add: get_close_matches_def)
  have len: "length (map snd ?top) \<le> 3"
    using nlargest_props(1) [of 3 ?result] by simp
  have scored: "fst p = ratio (snd p) q \<and> snd p \<in> set universe \<and> 6 / 10 \<le> ratio (snd p) q"
    if "p \<in> set ?top" for p
    using that nlargest_props(2) [of 3 ?result] by auto
  then have mem: "\<forall>x\<in>set (map snd ?top). x \<in> set universe \<and> 6 / 10 \<le> ratio x q"
    by auto
  have "sorted_wrt (\<lambda>p p'. ?R (snd p) (snd p')) ?top"
  proof (rule sorted_wrt_mono_rel [OF _ nlargest_props(3)])
    fix p p' :: "rat \<times> str"
    assume "p \<in> set ?top" and "p' \<in> set ?top" and le: "p' \<le> p"
    then have "fst p = ratio (snd p) q" and "fst p' = ratio (snd p') q"
      using scored by blast+
    with le show "?R (snd p) (snd p')"
      by (cases p; cases p') auto
  qed
  then have ordered: "sorted_wrt ?R (map snd ?top)"
    by (simp add: sorted_wrt_map)
  have none: "(\<forall>x\<in>set universe. ratio x q < 6 / 10) \<longrightarrow> map snd ?top = []"
  proof
    assume "\<forall>x\<in>set universe. ratio x q < 6 / 10"
    then have "filter ?P universe = []"
      by (auto simp: filter_empty_conv)
    then show "map snd ?top = []"
      by (simp add: nlargest_def)
  qed
  have "suggest_keywords (Table s rows) q =
       map_sum id (Pair []) (get_close_matches q (sort (map keyword rows)) 3 (6 / 10))"
    by (simp split: sum.splits)
  with run len mem ordered none show ?thesis
    by blast
qed

theorem close_matches_threshold_and_order_witness:
  "get_close_matches [97, 98] [[97, 98, 99], [120, 121, 122], [97, 98, 100]] 3 (6 / 10) =
     Inr [[97, 98, 100], [97, 98, 99]] \<and>
   6 / 10 \<le> ratio [97, 98, 100] [97, 98] \<and> 6 / 10 \<le> ratio [97, 98, 99] [97, 98] \<and>
   get_close_matches [97, 98] [[120, 121, 122]] 3 (6 / 10) = Inr []"
proof -
  have run: "get_close_matches [97, 98] [[97, 98, 99], [120, 121, 122], [97, 98, 100]] 3 (6 / 10) =
     Inr [[97, 98, 100], [97, 98, 99]]"
    by code_simp
  have low: "\<forall>x\<in>set [[120, 121, 122]]. ratio x [97, 98] < 6 / 10"
    by code_simp
  from close_matches_threshold_and_order [of "[97, 98]" "[[97, 98, 99], [120, 121, 122], [97, 98, 100]]"]
  have "\<forall>x\<in>set [[97, 98, 100], [97, 98, 99]]. 6 / 10 \<le> ratio x [97, 98]"
    unfolding run by auto
  moreover from close_matches_threshold_and_order [of "[97, 98]" "[[120, 121, 122]]"] low
  have "get_close_matches [97, 98] [[120, 121, 122]] 3 (6 / 10) = Inr []"
    by auto
  ultimately show ?thesis
    using run by simp
qed

text \<open>
  The claim as stated breaks ties by the order of the universe. The candidates \<open>abc\<close> and
  \<open>abd\<close>, in that order, have the same ratio to the query \<open>ab\<close>, and \<open>abd\<close> is returned
  first.
\<close>

theorem close_matches_tie_counterexample:
  "get_close_matches [97, 98] [[97, 98, 99], [97, 98, 100]] 3 (6 / 10) =
     Inr [[97, 98, 100], [97, 98, 99]] \<and>
   ratio [97, 98, 99] [97, 98] = ratio [97, 98, 100] [97, 98]"
  by code_simp

section \<open>A failing statement\<close>

text \<open>
  C7, as amended. When the statement of \<open>search_resources\<close> or of \<open>top_keywords\<close> fails on
  a database that could be opened, the function reports the error on the console and
  goes on with the empty row list: \<open>search_resources\<close> returns \<open>[]\<close>, and \<open>top_keywords\<close>
  prints the notice of an empty ranking. The command loop then treats the failed
  search as a search without matches and leaves the store unchanged. Only a failing
  connection leaves the functions as an exception.
\<close>

theorem failed_statement_gives_empty_rows:
  "(d \<noteq> Unreachable \<and> sql_select_like d ([37] @ q @ [37]) = Inl e \<longrightarrow>
      search_resources d q = Inr ([Print Search_error], [])) \<and>
   (d \<noteq> Unreachable \<and> sql_select_top d = Inl e \<longrightarrow>
      top_keywords d = Inr [Print Top_error, Print Top_none]) \<and>
   main_search NoTable q = Inr ([Print Search_error, Print Keys_error], NoTable) \<and>
   search_resources Unreachable q = Inl OperationalError \<and>
   top_keywords Unreachable = Inl OperationalError \<and>
   main_search Unreachable q = Inl OperationalError"
  by (cases d) (simp_all add: main_search_def get_close_matches_def nlargest_def)

theorem failed_statement_gives_empty_rows_witness:
  "NoTable \<noteq> Unreachable \<and>
   sql_select_like NoTable ([37] @ [76, 77, 83] @ [37]) = Inl OperationalError \<and>
   search_resources NoTable [76, 77, 83] = Inr ([Print Search_error], []) \<and>
   sql_select_top NoTable = Inl OperationalError \<and>
   top_keywords NoTable = Inr [Print Top_error, Print Top_none]"
  using failed_statement_gives_empty_rows [of NoTable "[76, 77, 83]" OperationalError]
  by (simp del: search_resources.simps top_keywords.simps)

text \<open>
  The claim as stated keeps a failure apart from an empty result. On a file without the
  table the statement fails, and the value \<open>search_resources\<close> returns is the empty
  list, the value it returns on an empty table.
\<close>

theorem failed_search_counterexample:
  "sql_select_like NoTable ([37] @ [76, 77, 83] @ [37]) = Inl OperationalError \<and>
   map_sum id snd (search_resources NoTable [76, 77, 83]) = Inr [] \<and>
   map_sum id snd (search_resources (Table 0 []) [76, 77, 83]) = Inr []"
  by simp

section \<open>The ranking example\<close>

text \<open>
  C8, as amended. The seed holds the keywords for library, dormitory and LMS, with any
  locators. After the reseed, three searches for \<open>LMS\<close> and one for the library keyword
  (the command loop lowercases its line, so the third conjunct runs the same session
  with \<open>lms\<close>), the ranking statement of \<open>top_keywords\<close>, whose limit is fixed at 5,
  returns three rows in descending order of the count: LMS with 3, the library keyword
  with 1 and the dormitory keyword with 0; \<open>top_keywords\<close> prints them in that order.
\<close>

theorem ranking_example:
  "init_db [([46020, 49436, 44288], u1), ([44592, 49689, 49324], u2), ([76, 77, 83], u3)] NoTable =
     Inr (Table 3 [\<lparr>row_id = 1, keyword = [46020, 49436, 44288], url = u1, count = 0, tag = []\<rparr>,
              \<lparr>row_id = 2, keyword = [44592, 49689, 49324], url = u2, count = 0, tag = []\<rparr>,
              \<lparr>row_id = 3, keyword = [76, 77, 83], url = u3, count = 0, tag = []\<rparr>]) \<and>
   searches
     (Table 3 [\<lparr>row_id = 1, keyword = [46020, 49436, 44288], url = u1, count = 0, tag = []\<rparr>,
              \<lparr>row_id = 2, keyword = [44592, 49689, 49324], url = u2, count = 0, tag = []\<rparr>,
              \<lparr>row_id = 3, keyword = [76, 77, 83], url = u3, count = 0, tag = []\<rparr>])
     [[76, 77, 83], [76, 77, 83], [76, 77, 83], [46020, 49436, 44288]] =
     Inr (Table 3 [\<lparr>row_id = 1, keyword = [46020, 49436, 44288], url = u1, count = 1, tag = []\<rparr>,
              \<lparr>row_id = 2, keyword = [44592, 49689, 49324], url = u2, count = 0, tag = []\<rparr>,
              \<lparr>row_id = 3, keyword = [76, 77, 83], url = u3, count = 3, tag = []\<rparr>]) \<and>
   searches
     (Table 3 [\<lparr>row_id = 1, keyword = [46020, 49436, 44288], url = u1, count = 0, tag = []\<rparr>,
              \<lparr>row_id = 2, keyword = [44592, 49689, 49324], url = u2, count = 0, tag = []\<rparr>,
              \<lparr>row_id = 3, keyword = [76, 77, 83], url = u3, count = 0, tag = []\<rparr>])
     [[108, 109, 115], [108, 109, 115], [108, 109, 115], [46020, 49436, 44288]] =
     Inr (Table 3 [\<lparr>row_id = 1, keyword = [46020, 49436, 44288], url = u1, count = 1, tag = []\<rparr>,
              \<lparr>row_id = 2, keyword = [44592, 49689, 49324], url = u2, count = 0, tag = []\<rparr>,
              \<lparr>row_id = 3, keyword = [76, 77, 83], url = u3, count = 3, tag = []\<rparr>]) \<and>
   sql_select_top
     (Table 3 [\<lparr>row_id = 1, keyword = [46020, 49436, 44288], url = u1, count = 1, tag = []\<rparr>,
              \<lparr>row_id = 2, keyword = [44592, 49689, 49324], url = u2, count = 0, tag = []\<rparr>,
              \<lparr>row_id = 3, keyword = [76, 77, 83], url = u3, count = 3, tag = []\<rparr>]) =
     Inr [([76, 77, 83], 3), ([46020, 49436, 44288], 1), ([44592, 49689, 49324], 0)] \<and>
   top_keywords
     (Table 3 [\<lparr>row_id = 1, keyword = [46020, 49436, 44288], url = u1, count = 1, tag = []\<rparr>,
              \<lparr>row_id = 2, keyword = [44592, 49689, 49324], url = u2, count = 0, tag = []\<rparr>,
              \<lparr>row_id = 3, keyword = [76, 77, 83], url = u3, count = 3, tag = []\<rparr>]) =
     Inr [Print Top_header, Print (Top_line 1 [76, 77, 83] 3),
          Print (Top_line 2 [46020, 49436, 44288] 1), Print (Top_line 3 [44592, 49689, 49324] 0)]"
proof (intro conjI)
  show "init_db [([46020, 49436, 44288], u1), ([44592, 49689, 49324], u2), ([76, 77, 83], u3)] NoTable =
     Inr (Table 3 [\<lparr>row_id = 1, keyword = [46020, 49436, 44288], url = u1, count = 0, tag = []\<rparr>,
              \<lparr>row_id = 2, keyword = [44592, 49689, 49324], url = u2, count = 0, tag = []\<rparr>,
              \<lparr>row_id = 3, keyword = [76, 77, 83], url = u3, count = 0, tag = []\<rparr>])"
    by (simp add: init_db_def new_row_def numeral_3_eq_3)
qed (simp_all add: main_search_def like_def ascii_lower_def utf8_length_simps utf8_char_length_def
       upt_rec numeral_3_eq_3)

text \<open>
  The claim as stated has a ranking of two rows. The program has no ranking with the
  limit 2: on the store of the example (here with the locators \<open>a\<close>, \<open>b\<close> and \<open>c\<close>) its
  ranking statement returns a third row and not the list of the claim.
\<close>

theorem ranking_limit_counterexample:
  "init_db [([46020, 49436, 44288], [97]), ([44592, 49689, 49324], [98]), ([76, 77, 83], [99])]
     NoTable =
     Inr (Table 3 [\<lparr>row_id = 1, keyword = [46020, 49436, 44288], url = [97], count = 0, tag = []\<rparr>,
              \<lparr>row_id = 2, keyword = [44592, 49689, 49324], url = [98], count = 0, tag = []\<rparr>,
              \<lparr>row_id = 3, keyword = [76, 77, 83], url = [99], count = 0, tag = []\<rparr>]) \<and>
   searches
     (Table 3 [\<lparr>row_id = 1, keyword = [46020, 49436, 44288], url = [97], count = 0, tag = []\<rparr>,
              \<lparr>row_id = 2, keyword = [44592, 49689, 49324], url = [98], count = 0, tag = []\<rparr>,
              \<lparr>row_id = 3, keyword = [76, 77, 83], url = [99], count = 0, tag = []\<rparr>])
     [[76, 77, 83], [76, 77, 83], [76, 77, 83], [46020, 49436, 44288]] =
     Inr (Table 3 [\<lparr>row_id = 1, keyword = [46020, 49436, 44288], url = [97], count = 1, tag = []\<rparr>,
              \<lparr>row_id = 2, keyword = [44592, 49689, 49324], url = [98], count = 0, tag = []\<rparr>,
              \<lparr>row_id = 3, keyword = [76, 77, 83], url = [99], count = 3, tag = []\<rparr>]) \<and>
   sql_select_top
     (Table 3 [\<lparr>row_id = 1, keyword = [46020, 49436, 44288], url = [97], count = 1, tag = []\<rparr>,
              \<lparr>row_id = 2, keyword = [44592, 49689, 49324], url = [98], count = 0, tag = []\<rparr>,
              \<lparr>row_id = 3, keyword = [76, 77, 83], url = [99], count = 3, tag = []\<rparr>]) \<noteq>
     Inr [([76, 77, 83], 3), ([46020, 49436, 44288], 1)]"
proof (intro conjI)
  show "init_db [([46020, 49436, 44288], [97]), ([44592, 49689, 49324], [98]), ([76, 77, 83], [99])]
     NoTable =
     Inr (Table 3 [\<lparr>row_id = 1, keyword = [46020, 49436, 44288], url = [97], count = 0, tag = []\<rparr>,
              \<lparr>row_id = 2, keyword = [44592, 49689, 49324], url = [98], count = 0, tag = []\<rparr>,
              \<lparr>row_id = 3, keyword = [76, 77, 83], url = [99], count = 0, tag = []\<rparr>])"
    by (simp add: init_db_def new_row_def numeral_3_eq_3)
qed (simp_all add: main_search_def like_def ascii_lower_def utf8_length_simps utf8_char_length_def)

section \<open>Tags\<close>

text \<open>
  C9. On a table with pairwise different keywords that holds the keyword entered and no
  other row with the tag entered, \<open>tag_resource\<close> succeeds and \<open>show_by_tag\<close> of that tag
  then lists exactly one pair: the keyword with its locator. \<open>show_by_tag\<close> of a tag that
  no row carries lists nothing.
\<close>

theorem tag_round_trip:
  assumes "distinct (map keyword rows)" and "r \<in> set rows"
    and "keyword r = py_strip kw_line"
    and "\<forall>x\<in>set rows. keyword x \<noteq> py_strip kw_line \<longrightarrow> tag x \<noteq> py_strip tag_line"
  shows "\<exists>rows'. tag_resource (Table s rows) kw_line tag_line =
       Inr ([Print (Tag_ok (py_strip kw_line) (py_strip tag_line))], Table s rows') \<and>
     show_by_tag (Table s rows') tag_line =
       Inr [Print (By_tag_header (py_strip tag_line)),
            Print (By_tag_line (py_strip kw_line) (url r))] \<and>
     ((\<forall>x\<in>set rows'. tag x \<noteq> py_strip other_line) \<longrightarrow>
        show_by_tag (Table s rows') other_line = Inr [Print (By_tag_none (py_strip other_line))])"
proof -
  let ?kw = "py_strip kw_line" and ?t = "py_strip tag_line"
  let ?upd = "\<lambda>x. if keyword x = ?kw then x\<lparr>tag := ?t\<rparr> else x"
  let ?rows' = "map ?upd rows"
  have one: "filter (\<lambda>x. keyword x = ?kw) rows = [r]"
    using filter_keyword_unique [OF assms(1,2)] assms(3) by simp
  then have tagged: "tag_resource (Table s rows) kw_line tag_line =
       Inr ([Print (Tag_ok ?kw ?t)], Table s ?rows')"
    by (simp add: Let_def)
  have "filter (\<lambda>x. tag x = ?t) ?rows' = map ?upd (filter (\<lambda>x. keyword x = ?kw) rows)"
    using assms(4) by (auto simp: filter_map comp_def intro!: arg_cong [where f = "map ?upd"] filter_cong)
  with one assms(3) have "filter (\<lambda>x. tag x = ?t) ?rows' = [r\<lparr>tag := ?t\<rparr>]"
    by simp
  with assms(3) have shown: "show_by_tag (Table s ?rows') tag_line =
       Inr [Print (By_tag_header ?t), Print (By_tag_line ?kw (url r))]"
    by (simp add: Let_def)
  have none: "(\<forall>x\<in>set ?rows'. tag x \<noteq> py_strip other_line) \<longrightarrow>
        show_by_tag (Table s ?rows') other_line = Inr [Print (By_tag_none (py_strip other_line))]"
    by (simp add: Let_def filter_empty_conv)
  from tagged shown none show ?thesis
    by blast
qed

theorem tag_round_trip_witness:
  "\<exists>rows'. tag_resource
       (Table 2 [\<lparr>row_id = 1, keyword = [46020, 49436, 44288], url = [97], count = 0, tag = []\<rparr>,
                 \<lparr>row_id = 2, keyword = [44592, 49689, 49324], url = [98], count = 0, tag = []\<rparr>])
       [44592, 49689, 49324] [51452, 44144] =
       Inr ([Print (Tag_ok [44592, 49689, 49324] [51452, 44144])], Table 2 rows') \<and>
     show_by_tag (Table 2 rows') [51452, 44144] =
       Inr [Print (By_tag_header [51452, 44144]), Print (By_tag_line [44592, 49689, 49324] [98])] \<and>
     show_by_tag (Table 2 rows') [50630, 51020] = Inr [Print (By_tag_none [50630, 51020])]"
proof -
  let ?r1 = "\<lparr>row_id = 1, keyword = [46020, 49436, 44288], url = [97], count = 0, tag = []\<rparr>"
  let ?r2 = "\<lparr>row_id = 2, keyword = [44592, 49689, 49324], url = [98], count = 0, tag = []\<rparr>"
  have strip: "py_strip [44592, 49689, 49324] = [44592, 49689, 49324]"
    "py_strip [51452, 44144] = [51452, 44144]" "py_strip [50630, 51020] = [50630, 51020]"
    by (simp_all add: py_strip_def is_space_def)
  have "distinct (map keyword [?r1, ?r2])" and "?r2 \<in> set [?r1, ?r2]"
    and "keyword ?r2 = py_strip [44592, 49689, 49324]"
    and "\<forall>x\<in>set [?r1, ?r2]. keyword x \<noteq> py_strip [44592, 49689, 49324] \<longrightarrow>
           tag x \<noteq> py_strip [51452, 44144]"
    by (simp_all add: strip)
  from tag_round_trip [OF this, of 2 "[50630, 51020]"] obtain rows' where
    t: "tag_resource (Table 2 [?r1, ?r2]) [44592, 49689, 49324] [51452, 44144] =
       Inr ([Print (Tag_ok [44592, 49689, 49324] [51452, 44144])], Table 2 rows')" and
    s: "show_by_tag (Table 2 rows') [51452, 44144] =
       Inr [Print (By_tag_header [51452, 44144]), Print (By_tag_line [44592, 49689, 49324] [98])]" and
    n: "(\<forall>x\<in>set rows'. tag x \<noteq> [50630, 51020]) \<longrightarrow>
        show_by_tag (Table 2 rows') [50630, 51020] = Inr [Print (By_tag_none [50630, 51020])]"
    unfolding strip by auto
  from t have "rows' = [?r1, ?r2\<lparr>tag := [51452, 44144]\<rparr>]"
    by (simp add: Let_def strip)
  with n have "show_by_tag (Table 2 rows') [50630, 51020] = Inr [Print (By_tag_none [50630, 51020])]"
    by simp
  with t s show ?thesis
    by blast
qed

section \<open>The frame of the counter update\<close>

text \<open>
  C10. \<open>update_count k\<close> changes nothing but the \<open>count\<close> field of the row whose keyword is
  \<open>k\<close>: the table keeps its length, its rowid counter and every row's id, keyword, url
  and tag, every row with another keyword is the same row as before, and when no row
  has the keyword \<open>k\<close> the whole store is unchanged. On a file without the table the
  statement fails and the store is unchanged as well.
\<close>

theorem update_count_frame:
  "\<exists>rows'. update_count (Table s rows) k = Inr ([], Table s rows') \<and>
     length rows' = length rows \<and>
     (\<forall>i < length rows.
        row_id (rows' ! i) = row_id (rows ! i) \<and> keyword (rows' ! i) = keyword (rows ! i) \<and>
        url (rows' ! i) = url (rows ! i) \<and> tag (rows' ! i) = tag (rows ! i) \<and>
        (keyword (rows ! i) \<noteq> k \<longrightarrow> rows' ! i = rows ! i)) \<and>
     (k \<notin> keyword ` set rows \<longrightarrow> rows' = rows) \<and>
     update_count NoTable k = Inr ([Print Count_error], NoTable)"
proof -
  let ?f = "\<lambda>r. if keyword r = k then r\<lparr>count := count r + 1\<rparr> else r"
  have same: "k \<notin> keyword ` set rows \<Longrightarrow> map ?f rows = rows"
    by (induction rows) auto
  have "update_count (Table s rows) k = Inr ([], Table s (map ?f rows))"
    by simp
  with same show ?thesis
    by (intro exI [of _ "map ?f rows"]) simp
qed

theorem update_count_frame_witness:
  "\<exists>rows'. update_count
       (Table 2 [\<lparr>row_id = 1, keyword = [46020, 49436, 44288], url = [97], count = 0, tag = []\<rparr>,
                 \<lparr>row_id = 2, keyword = [76, 77, 83], url = [98], count = 4, tag = [99]\<rparr>])
       [76, 77, 83] = Inr ([], Table 2 rows') \<and>
     length rows' = 2 \<and>
     rows' ! 0 = \<lparr>row_id = 1, keyword = [46020, 49436, 44288], url = [97], count = 0, tag = []\<rparr> \<and>
     row_id (rows' ! 1) = 2 \<and> keyword (rows' ! 1) = [76, 77, 83] \<and> url (rows' ! 1) = [98] \<and>
     tag (rows' ! 1) = [99]"
proof -
  let ?r1 = "\<lparr>row_id = 1, keyword = [46020, 49436, 44288], url = [97], count = 0, tag = []\<rparr>"
  let ?r2 = "\<lparr>row_id = 2, keyword = [76, 77, 83], url = [98], count = 4, tag = [99]\<rparr>"
  from update_count_frame [of 2 "[?r1, ?r2]" "[76, 77, 83]"] obtain rows' where
    res: "update_count (Table 2 [?r1, ?r2]) [76, 77, 83] = Inr ([], Table 2 rows')" and
    len: "length rows' = length [?r1, ?r2]" and
    frame: "\<forall>i < length [?r1, ?r2].
        row_id (rows' ! i) = row_id ([?r1, ?r2] ! i) \<and>
        keyword (rows' ! i) = keyword ([?r1, ?r2] ! i) \<and>
        url (rows' ! i) = url ([?r1, ?r2] ! i) \<and> tag (rows' ! i) = tag ([?r1, ?r2] ! i) \<and>
        (keyword ([?r1, ?r2] ! i) \<noteq> [76, 77, 83] \<longrightarrow> rows' ! i = [?r1, ?r2] ! i)"
    by blast
  from frame [rule_format, of 0] have r0: "rows' ! 0 = ?r1"
    by simp
  from frame [rule_format, of 1] have r1:
    "row_id (rows' ! 1) = 2 \<and> keyword (rows' ! 1) = [76, 77, 83] \<and> url (rows' ! 1) = [98] \<and>
     tag (rows' ! 1) = [99]"
    by simp
  from res len r0 r1 show ?thesis
    by (intro exI [of _ rows']) simp
qed

end
